theory Spec2Isabelle
  imports Complex_Main "HOL-Library.Multiset"
begin

section \<open>Machine numbers\<close>

text \<open>
  The kernels compute on \<^verbatim>\<open>float\<close>, \<^verbatim>\<open>uint32_t\<close> and \<^verbatim>\<open>int32_t\<close>.
  Single-precision values are idealised as \<^typ>\<open>real\<close>: rounding, NaN and the
  approximation error of \<^verbatim>\<open>__expf\<close> are outside the model. Unsigned 32-bit values are
  \<^typ>\<open>nat\<close> and signed ones \<^typ>\<open>int\<close>; every conversion and every
  unsigned operation that may wrap is written out with \<open>u32\<close> and \<open>s32\<close>.
  Arrays reached through a raw pointer are total functions from the element offset.
\<close>

definition u32 :: "int \<Rightarrow> nat" where
  "u32 v = nat (v mod 2 ^ 32)"

definition s32 :: "int \<Rightarrow> int" where
  "s32 v = (v + 2 ^ 31) mod 2 ^ 32 - 2 ^ 31"

record float2 =
  x :: real
  y :: real

record float3 = float2 +
  z :: real

section \<open>Forward rasterisation kernel (rasterize\_to\_pixels\_fwd.cu)\<close>

text \<open>The kernel's parameters. \<open>num_C\<close> and \<open>num_N\<close> are the source's \<^verbatim>\<open>C\<close> and \<^verbatim>\<open>N\<close>;
  \<open>backgrounds = None\<close> is the null pointer.\<close>

record fwd_args =
  num_C :: nat
  num_N :: nat
  n_isects :: nat
  packed :: bool
  means2d :: "int \<Rightarrow> float2"
  conics :: "int \<Rightarrow> float3"
  colors :: "int \<Rightarrow> real"
  opacities :: "int \<Rightarrow> real"
  backgrounds :: "(int \<Rightarrow> real) option"
  image_width :: nat
  image_height :: nat
  tile_size :: nat
  tile_width :: nat
  tile_height :: nat
  tile_offsets :: "int \<Rightarrow> int"
  flatten_ids :: "int \<Rightarrow> int"

text \<open>
  One thread of the launch: its block index, its index in the block and the block's
  dimensions. \<open>others_done b\<close> tells whether every other thread of the block has its
  \<^verbatim>\<open>done\<close> flag set at the barrier that opens batch \<open>b\<close>; with the thread's own flag it
  decides \<^verbatim>\<open>__syncthreads_count(done) >= block_size\<close>.
\<close>

record thread_ctx =
  group_index_x :: nat
  group_index_y :: nat
  group_index_z :: nat
  thread_index_x :: nat
  thread_index_y :: nat
  block_dim_x :: nat
  block_dim_y :: nat
  others_done :: "nat \<Rightarrow> bool"

text \<open>The three shared-memory arrays of a block, indexed by slot.\<close>

record shared_batch =
  id_batch :: "nat \<Rightarrow> int"
  xy_opacity_batch :: "nat \<Rightarrow> float3"
  conic_batch :: "nat \<Rightarrow> float3"

text \<open>The per-pixel registers: transmittance \<open>T\<close>, \<open>cur_idx\<close>, the colour accumulator
  \<open>pix_out\<close> and the \<^verbatim>\<open>done\<close> flag (\<open>is_done\<close>).\<close>

record pix_state =
  T :: real
  cur_idx :: nat
  pix_out :: "nat \<Rightarrow> real"
  is_done :: bool

text \<open>Lines 115 to 118: the exponent, from \<^verbatim>\<open>delta = {xy_opac.x - px, xy_opac.y - py}\<close>.\<close>

definition gauss_sigma :: "float3 \<Rightarrow> float3 \<Rightarrow> real \<Rightarrow> real \<Rightarrow> real" where
  "gauss_sigma conic xy_opac px py =
     (let delta_x = x xy_opac - px; delta_y = y xy_opac - py
      in 0.5 * (x conic * delta_x * delta_x + z conic * delta_y * delta_y)
           + y conic * delta_x * delta_y)"

text \<open>Line 119.\<close>

definition gauss_alpha :: "real \<Rightarrow> real \<Rightarrow> real" where
  "gauss_alpha opac sigma = min 0.999 (opac * exp (- sigma))"

text \<open>Line 120: the test that makes the loop \<^verbatim>\<open>continue\<close>.\<close>

definition skipped :: "real \<Rightarrow> real \<Rightarrow> bool" where
  "skipped sigma alpha \<longleftrightarrow> sigma < 0 \<or> alpha < 1 / 255"

text \<open>
  The body of the inner loop (lines 112 to 139) for slot \<open>t\<close> of the current batch.
  \<^verbatim>\<open>continue\<close> returns the registers as they are; the cut-off sets the flag, and the
  \<^verbatim>\<open>break\<close> that follows is the loop test \<^verbatim>\<open>!done\<close> failing on it.
\<close>

definition composite_slot ::
  "nat \<Rightarrow> fwd_args \<Rightarrow> shared_batch \<Rightarrow> real \<Rightarrow> real \<Rightarrow> nat \<Rightarrow> nat \<Rightarrow> pix_state \<Rightarrow> pix_state" where
  "composite_slot COLOR_DIM A sh px py batch_start t st =
     (let conic = conic_batch sh t;
          xy_opac = xy_opacity_batch sh t;
          opac = z xy_opac;
          sigma = gauss_sigma conic xy_opac px py;
          alpha = gauss_alpha opac sigma
      in if skipped sigma alpha then st
         else let next_T = T st * (1 - alpha)
              in if next_T \<le> 1 / 10000 then st\<lparr>is_done := True\<rparr>
                 else let g = id_batch sh t;
                          vis = alpha * T st;
                          c_ptr = int (u32 (g * int COLOR_DIM))
                      in st\<lparr>T := next_T,
                            cur_idx := u32 (int batch_start + int t),
                            pix_out := (\<lambda>k. if k < COLOR_DIM
                                             then pix_out st k + colors A (c_ptr + int k) * vis
                                             else pix_out st k)\<rparr>)"

text \<open>The inner loop, lines 111 to 140. \<open>t < batch_size\<close> keeps \<open>t + 1\<close> below \<open>2 ^ 32\<close>.\<close>

function batch_loop ::
  "nat \<Rightarrow> fwd_args \<Rightarrow> shared_batch \<Rightarrow> real \<Rightarrow> real \<Rightarrow> nat \<Rightarrow> nat \<Rightarrow> nat \<Rightarrow> pix_state \<Rightarrow> pix_state" where
  "batch_loop COLOR_DIM A sh px py batch_start batch_size t st =
     (if t < batch_size \<and> \<not> is_done st
      then batch_loop COLOR_DIM A sh px py batch_start batch_size (t + 1)
             (composite_slot COLOR_DIM A sh px py batch_start t st)
      else st)"
  by pat_completeness auto
termination
  by (relation "measure (\<lambda>(cd, A, sh, px, py, bs, n, t, st). n - t)") auto

declare batch_loop.simps [simp del]

text \<open>
  Lines 95 to 104 for the whole block: thread \<open>tr\<close> fills slot \<open>tr\<close> when its index is in
  range (an unsigned comparison), and leaves the slot as it was otherwise.
\<close>

definition load_batch :: "fwd_args \<Rightarrow> nat \<Rightarrow> int \<Rightarrow> nat \<Rightarrow> shared_batch \<Rightarrow> shared_batch" where
  "load_batch A batch_start range_end block_size sh =
     (let fetch = (\<lambda>tr. u32 (int batch_start + int tr));
          hit = (\<lambda>tr. tr < block_size \<and> fetch tr < u32 range_end);
          g = (\<lambda>tr. flatten_ids A (int (fetch tr)))
      in \<lparr>id_batch = (\<lambda>tr. if hit tr then g tr else id_batch sh tr),
          xy_opacity_batch = (\<lambda>tr. if hit tr
             then \<lparr>x = x (means2d A (g tr)), y = y (means2d A (g tr)), z = opacities A (g tr)\<rparr>
             else xy_opacity_batch sh tr),
          conic_batch = (\<lambda>tr. if hit tr then conics A (g tr) else conic_batch sh tr)\<rparr>)"

text \<open>The outer loop, lines 86 to 141, from batch \<open>b\<close> on.\<close>

function tile_loop ::
  "nat \<Rightarrow> fwd_args \<Rightarrow> thread_ctx \<Rightarrow> real \<Rightarrow> real \<Rightarrow> int \<Rightarrow> int \<Rightarrow> nat \<Rightarrow> nat \<Rightarrow> nat
     \<Rightarrow> shared_batch \<times> pix_state \<Rightarrow> shared_batch \<times> pix_state" where
  "tile_loop COLOR_DIM A ctx px py range_start range_end block_size num_batches b (sh, st) =
     (if b < num_batches
      then if is_done st \<and> others_done ctx b then (sh, st)
           else let batch_start = u32 (range_start + int block_size * int b);
                    sh' = load_batch A batch_start range_end block_size sh;
                    batch_size = min block_size (u32 (range_end - int batch_start))
                in tile_loop COLOR_DIM A ctx px py range_start range_end block_size num_batches
                     (b + 1)
                     (sh', batch_loop COLOR_DIM A sh' px py batch_start batch_size 0 st)
      else (sh, st))"
  by pat_completeness auto
termination
  by (relation "measure (\<lambda>(cd, A, ctx, px, py, rs, re, bs, n, b, s). n - b)") auto

declare tile_loop.simps [simp del]

text \<open>What the thread stores for its pixel (lines 143 to 157), at offset \<open>out_pix_id\<close> of
  the camera's slice of each output buffer: one coverage, \<open>COLOR_DIM\<close> colour channels and
  one index.\<close>

record pixel_store =
  out_camera_id :: int
  out_pix_id :: int
  render_alphas :: real
  render_colors :: "real list"
  last_ids :: int

text \<open>The thread's view of the launch, lines 33 to 65.\<close>

definition camera_id :: "thread_ctx \<Rightarrow> int" where
  "camera_id ctx = s32 (int (group_index_x ctx))"

definition tile_id :: "fwd_args \<Rightarrow> thread_ctx \<Rightarrow> int" where
  "tile_id A ctx = s32 (int (group_index_y ctx) * int (tile_width A) + int (group_index_z ctx))"

definition pixel_i :: "fwd_args \<Rightarrow> thread_ctx \<Rightarrow> nat" where
  "pixel_i A ctx = u32 (int (group_index_y ctx) * int (tile_size A) + int (thread_index_y ctx))"

definition pixel_j :: "fwd_args \<Rightarrow> thread_ctx \<Rightarrow> nat" where
  "pixel_j A ctx = u32 (int (group_index_z ctx) * int (tile_size A) + int (thread_index_x ctx))"

definition inside :: "fwd_args \<Rightarrow> thread_ctx \<Rightarrow> bool" where
  "inside A ctx \<longleftrightarrow> pixel_i A ctx < image_height A \<and> pixel_j A ctx < image_width A"

definition tile_base :: "fwd_args \<Rightarrow> thread_ctx \<Rightarrow> int" where
  "tile_base A ctx =
     int (u32 (camera_id ctx * int (tile_height A) * int (tile_width A))) + tile_id A ctx"

definition range_start :: "fwd_args \<Rightarrow> thread_ctx \<Rightarrow> int" where
  "range_start A ctx = tile_offsets A (tile_base A ctx)"

definition range_end :: "fwd_args \<Rightarrow> thread_ctx \<Rightarrow> int" where
  "range_end A ctx =
     (if u32 (camera_id ctx) = u32 (int (num_C A) - 1)
         \<and> u32 (tile_id A ctx) = u32 (int (tile_width A) * int (tile_height A) - 1)
      then s32 (int (n_isects A))
      else tile_offsets A (tile_base A ctx + 1))"

definition block_size :: "thread_ctx \<Rightarrow> nat" where
  "block_size ctx = block_dim_x ctx * block_dim_y ctx"

definition num_batches :: "fwd_args \<Rightarrow> thread_ctx \<Rightarrow> nat" where
  "num_batches A ctx =
     u32 (range_end A ctx - range_start A ctx + int (block_size ctx) - 1) div block_size ctx"

definition init_state :: "fwd_args \<Rightarrow> thread_ctx \<Rightarrow> pix_state" where
  "init_state A ctx = \<lparr>T = 1, cur_idx = 0, pix_out = (\<lambda>k. 0), is_done = \<not> inside A ctx\<rparr>"

definition final_state :: "nat \<Rightarrow> fwd_args \<Rightarrow> thread_ctx \<Rightarrow> shared_batch \<Rightarrow> pix_state" where
  "final_state COLOR_DIM A ctx sh =
     (let px = real (pixel_j A ctx) + 0.5; py = real (pixel_i A ctx) + 0.5
      in snd (tile_loop COLOR_DIM A ctx px py (range_start A ctx) (range_end A ctx)
                (block_size ctx) (num_batches A ctx) 0 (sh, init_state A ctx)))"

text \<open>
  The kernel for one thread, given the block's shared memory \<open>sh\<close> as it is at entry:
  \<open>None\<close> for a thread outside the image, which stores nothing.
\<close>

definition rasterize_to_pixels_fwd_kernel ::
  "nat \<Rightarrow> fwd_args \<Rightarrow> thread_ctx \<Rightarrow> shared_batch \<Rightarrow> pixel_store option" where
  "rasterize_to_pixels_fwd_kernel COLOR_DIM A ctx sh =
     (let st = final_state COLOR_DIM A ctx sh;
          bg = int (u32 (camera_id ctx * int COLOR_DIM))
      in if inside A ctx
         then Some \<lparr>out_camera_id = camera_id ctx,
                    out_pix_id = s32 (int (pixel_i A ctx) * int (image_width A) + int (pixel_j A ctx)),
                    render_alphas = 1 - T st,
                    render_colors = map (\<lambda>k. case backgrounds A of
                                                None \<Rightarrow> pix_out st k
                                              | Some bgs \<Rightarrow> pix_out st k + T st * bgs (bg + int k))
                                        [0..<COLOR_DIM],
                    last_ids = s32 (int (cur_idx st))\<rparr>
         else None)"


text \<open>
  The exponent as the specification words it: the quadratic form of the conic at an
  offset \<open>(dx, dy)\<close>, which the specification takes as pixel centre minus mean.
\<close>

definition sigma_spec :: "float3 \<Rightarrow> real \<Rightarrow> real \<Rightarrow> real" where
  "sigma_spec conic dx dy = 0.5 * (x conic * dx\<^sup>2 + z conic * dy\<^sup>2) + y conic * dx * dy"

section \<open>Forward rasterisation entry point\<close>

datatype error =
    Check_Input string
  | Shared_Memory_Size nat
  | Unsupported_Channels nat
  | Assertion_Failed string
  | Bad_Optional_Access

text \<open>
  \<open>Check_Input\<close> is the failure of a \<^verbatim>\<open>CHECK_INPUT\<close> on the named tensor,
  \<open>Shared_Memory_Size n\<close> is
  \<^verbatim>\<open>"Failed to set maximum shared memory size (requested n bytes), try lowering tile_size."\<close>
  and \<open>Unsupported_Channels n\<close> is \<^verbatim>\<open>"Unsupported number of channels: n"\<close>.

  A call of the entry point: the kernel arguments it assembles (the \<^verbatim>\<open>uint32_t\<close> locals
  of lines 183 to 190 and the data pointers), the local \<^verbatim>\<open>channels\<close>, what the macro
  \<^verbatim>\<open>CHECK_INPUT\<close> of helpers.cuh finds for each tensor, and whether
  \<^verbatim>\<open>cudaFuncSetAttribute\<close> succeeds on the device for a kernel instance and a size.
\<close>

record fwd_call = fwd_args +
  channels :: nat
  check_input :: "string \<Rightarrow> bool"
  set_attribute_ok :: "nat \<Rightarrow> nat \<Rightarrow> bool"

record kernel_launch =
  launch_COLOR_DIM :: nat
  launch_blocks :: "nat \<times> nat \<times> nat"
  launch_threads :: "nat \<times> nat \<times> nat"
  launch_shared_mem :: nat
  launch_args :: fwd_args

text \<open>The three tensors returned, by their sizes; their contents are what the launched
  kernel stores.\<close>

record fwd_result =
  renders_sizes :: "nat list"
  alphas_sizes :: "nat list"
  last_ids_sizes :: "nat list"

definition require :: "bool \<Rightarrow> error \<Rightarrow> error option \<Rightarrow> error option" where
  "require ok e rest = (if ok then rest else Some e)"

text \<open>Lines 173 to 182.\<close>

definition fwd_checks :: "fwd_call \<Rightarrow> error option" where
  "fwd_checks call =
     require (check_input call ''means2d'') (Check_Input ''means2d'')
    (require (check_input call ''conics'') (Check_Input ''conics'')
    (require (check_input call ''colors'') (Check_Input ''colors'')
    (require (check_input call ''opacities'') (Check_Input ''opacities'')
    (require (check_input call ''tile_offsets'') (Check_Input ''tile_offsets'')
    (require (check_input call ''flatten_ids'') (Check_Input ''flatten_ids'')
    (require (backgrounds call = None \<or> check_input call ''backgrounds.value()'')
       (Check_Input ''backgrounds.value()'') None))))))"

text \<open>Lines 205 and 206, in \<^verbatim>\<open>uint32_t\<close>.\<close>

definition shared_mem :: "fwd_call \<Rightarrow> nat" where
  "shared_mem call = u32 (int (tile_size call) * int (tile_size call) * (4 + 12 + 12))"

text \<open>
  One \<^verbatim>\<open>case\<close> of the switch: the attribute is set, or the call fails, and then the
  instance \<open>COLOR_DIM\<close> of the kernel is launched on \<open>{C, tile_height, tile_width}\<close> blocks
  of \<open>{tile_size, tile_size, 1}\<close> threads. The first component is the list of kernels
  launched, the only writers of the output buffers.
\<close>

definition switch_case :: "nat \<Rightarrow> fwd_call \<Rightarrow> kernel_launch list \<times> (error + fwd_result)" where
  "switch_case COLOR_DIM call =
     (if \<not> set_attribute_ok call COLOR_DIM (shared_mem call)
      then ([], Inl (Shared_Memory_Size (shared_mem call)))
      else ([\<lparr>launch_COLOR_DIM = COLOR_DIM,
               launch_blocks = (num_C call, tile_height call, tile_width call),
               launch_threads = (tile_size call, tile_size call, 1),
               launch_shared_mem = shared_mem call,
               launch_args = fwd_args.truncate call\<rparr>],
            Inr \<lparr>renders_sizes = [num_C call, image_height call, image_width call, channels call],
                 alphas_sizes = [num_C call, image_height call, image_width call, 1],
                 last_ids_sizes = [num_C call, image_height call, image_width call]\<rparr>))"

definition rasterize_to_pixels_fwd_tensor ::
  "fwd_call \<Rightarrow> kernel_launch list \<times> (error + fwd_result)" where
  "rasterize_to_pixels_fwd_tensor call =
     (case fwd_checks call of
        Some e \<Rightarrow> ([], Inl e)
      | None \<Rightarrow>
         (if channels call = 1 then switch_case 1 call
          else if channels call = 2 then switch_case 2 call
          else if channels call = 3 then switch_case 3 call
          else if channels call = 4 then switch_case 4 call
          else if channels call = 5 then switch_case 5 call
          else if channels call = 8 then switch_case 8 call
          else if channels call = 9 then switch_case 9 call
          else if channels call = 16 then switch_case 16 call
          else if channels call = 17 then switch_case 17 call
          else if channels call = 32 then switch_case 32 call
          else if channels call = 33 then switch_case 33 call
          else if channels call = 64 then switch_case 64 call
          else if channels call = 65 then switch_case 65 call
          else if channels call = 128 then switch_case 128 call
          else if channels call = 129 then switch_case 129 call
          else if channels call = 256 then switch_case 256 call
          else if channels call = 257 then switch_case 257 call
          else if channels call = 512 then switch_case 512 call
          else if channels call = 513 then switch_case 513 call
          else ([], Inl (Unsupported_Channels (channels call)))))"

text \<open>The channel counts the specification lists as supported.\<close>

definition supported_channels :: "nat set" where
  "supported_channels =
     {1, 2, 3, 4, 5, 8, 9, 16, 17, 32, 33, 64, 65, 128, 129, 256, 257, 512, 513}"


section \<open>Projection backward kernel (fully\_fused\_projection\_packed\_bwd.cu)\<close>

text \<open>
  What a thread holds at line 125: the vectors \<^verbatim>\<open>v_mean\<close>, \<^verbatim>\<open>v_R\<close>, \<^verbatim>\<open>v_t\<close> and the
  matrix \<^verbatim>\<open>v_covar\<close> of lines 66 to 123, and the \<^verbatim>\<open>v_quat\<close> and \<^verbatim>\<open>v_scale\<close> that
  \<^verbatim>\<open>quat_scale_to_covar_vjp\<close> makes of \<^verbatim>\<open>v_covar\<close> before any reduction. A matrix is
  indexed as in the source, \<open>v_covar c r\<close> for \<^verbatim>\<open>v_covar[c][r]\<close>.
\<close>

record thread_grads =
  v_mean :: "nat \<Rightarrow> real"
  v_covar :: "nat \<Rightarrow> nat \<Rightarrow> real"
  v_quat :: "nat \<Rightarrow> real"
  v_scale :: "nat \<Rightarrow> real"
  v_R :: "nat \<Rightarrow> nat \<Rightarrow> real"
  v_t :: "nat \<Rightarrow> real"

text \<open>
  The kernel's parameters that the write-out reads. The read-only inputs enter through
  \<open>local_vjp\<close>: \<open>local_vjp A idx\<close> is what lines 52 to 123 (and the helpers of utils.cuh
  they call) compute for record \<open>idx\<close>, the same in both layouts.
\<close>

record bwd_args =
  nnz :: nat
  camera_ids :: "int \<Rightarrow> int"
  gaussian_ids :: "int \<Rightarrow> int"
  sparse_grad :: bool
  local_vjp :: "nat \<Rightarrow> thread_grads"

text \<open>The five output pointers; \<open>None\<close> is the null pointer.\<close>

record grad_ptrs =
  v_means :: "(int \<Rightarrow> real) option"
  v_covars :: "(int \<Rightarrow> real) option"
  v_quats :: "(int \<Rightarrow> real) option"
  v_scales :: "(int \<Rightarrow> real) option"
  v_viewmats :: "(int \<Rightarrow> real) option"

text \<open>Plain stores and \<^verbatim>\<open>atomicAdd\<close>s of consecutive elements from an offset on.\<close>

fun store_list :: "(int \<Rightarrow> real) \<Rightarrow> int \<Rightarrow> real list \<Rightarrow> int \<Rightarrow> real" where
  "store_list m a [] = m"
| "store_list m a (v # vs) = store_list (m(a := v)) (a + 1) vs"

fun atomicAdd_list :: "(int \<Rightarrow> real) \<Rightarrow> int \<Rightarrow> real list \<Rightarrow> int \<Rightarrow> real" where
  "atomicAdd_list m a [] = m"
| "atomicAdd_list m a (v # vs) = atomicAdd_list (m(a := m a + v)) (a + 1) vs"

text \<open>A store through a null pointer is outside the model and leaves it null; the entry
  point passes \<^verbatim>\<open>v_quats\<close> and \<^verbatim>\<open>v_scales\<close> whenever it passes no \<^verbatim>\<open>v_covars\<close>.\<close>

definition stores :: "(int \<Rightarrow> real) option \<Rightarrow> int \<Rightarrow> real list \<Rightarrow> (int \<Rightarrow> real) option" where
  "stores p a vs = map_option (\<lambda>m. store_list m a vs) p"

definition atomicAdds :: "(int \<Rightarrow> real) option \<Rightarrow> int \<Rightarrow> real list \<Rightarrow> (int \<Rightarrow> real) option" where
  "atomicAdds p a vs = map_option (\<lambda>m. atomicAdd_list m a vs) p"

text \<open>
  \<^verbatim>\<open>cg::labeled_partition\<close>: the lanes of the warp whose label equals that of lane \<open>p\<close>,
  in lane order. \<open>ws\<close> lists the record indices of the warp's threads that are still
  running at line 125, by lane.
\<close>

definition labeled_partition :: "(int \<Rightarrow> int) \<Rightarrow> nat list \<Rightarrow> nat \<Rightarrow> nat list" where
  "labeled_partition label ws p =
     filter (\<lambda>q. label (int (ws ! q)) = label (int (ws ! p))) [0..<length ws]"

definition thread_rank :: "nat list \<Rightarrow> nat \<Rightarrow> nat" where
  "thread_rank grp p = length (filter (\<lambda>q. q < p) grp)"

text \<open>
  Modelled from the spec: \<^verbatim>\<open>warpSum\<close> of utils.cuh is not among the sources; the
  specification has it perform "an intra-group reduction (sum) of each unit's locally
  computed gradient across that group", which leaves the group's sum in every lane.
\<close>

definition warpSum :: "(nat \<Rightarrow> real) \<Rightarrow> nat list \<Rightarrow> nat list \<Rightarrow> real" where
  "warpSum val ws grp = sum_list (map (\<lambda>q. val (ws ! q)) grp)"

text \<open>The six values written for a covariance gradient, lines 137 to 142 and 178 to 183.\<close>

definition covar_out :: "(nat \<Rightarrow> nat \<Rightarrow> real) \<Rightarrow> real list" where
  "covar_out m = [m 0 0, m 0 1 + m 1 0, m 0 2 + m 2 0, m 1 1, m 1 2 + m 2 1, m 2 2]"

text \<open>The twelve values added to a camera's matrix, lines 214 to 220, by increasing
  offset \<open>i * 4 + j\<close>.\<close>

definition viewmat_out :: "(nat \<Rightarrow> nat \<Rightarrow> real) \<Rightarrow> (nat \<Rightarrow> real) \<Rightarrow> real list" where
  "viewmat_out R t =
     [R 0 0, R 1 0, R 2 0, t 0, R 0 1, R 1 1, R 2 1, t 1, R 0 2, R 1 2, R 2 2, t 2]"

text \<open>Lines 126 to 157, for the thread of record \<open>idx\<close>.\<close>

definition write_sparse :: "bwd_args \<Rightarrow> nat \<Rightarrow> grad_ptrs \<Rightarrow> grad_ptrs" where
  "write_sparse A idx out =
     (let L = local_vjp A idx;
          out1 = (if v_means out \<noteq> None
                  then out\<lparr>v_means := stores (v_means out) (int (u32 (int idx * 3)))
                                         [v_mean L 0, v_mean L 1, v_mean L 2]\<rparr>
                  else out)
      in if v_covars out1 \<noteq> None
         then out1\<lparr>v_covars := stores (v_covars out1) (int (u32 (int idx * 6)))
                                   (covar_out (v_covar L))\<rparr>
         else out1\<lparr>v_quats := stores (v_quats out1) (int (u32 (int idx * 4)))
                                  [v_quat L 0, v_quat L 1, v_quat L 2, v_quat L 3],
                   v_scales := stores (v_scales out1) (int (u32 (int idx * 3)))
                                  [v_scale L 0, v_scale L 1, v_scale L 2]\<rparr>)"

text \<open>Lines 158 to 205, for lane \<open>p\<close> of the warp \<open>ws\<close>.\<close>

definition write_dense :: "bwd_args \<Rightarrow> nat list \<Rightarrow> nat \<Rightarrow> grad_ptrs \<Rightarrow> grad_ptrs" where
  "write_dense A ws p out =
     (let gid = gaussian_ids A (int (ws ! p));
          L = local_vjp A;
          warp_group_g = labeled_partition (gaussian_ids A) ws p;
          total = (\<lambda>val. warpSum val ws warp_group_g);
          out1 = (if v_means out \<noteq> None \<and> thread_rank warp_group_g p = 0
                  then out\<lparr>v_means := atomicAdds (v_means out) (gid * 3)
                         [total (\<lambda>i. v_mean (L i) 0), total (\<lambda>i. v_mean (L i) 1),
                          total (\<lambda>i. v_mean (L i) 2)]\<rparr>
                  else out)
      in if v_covars out1 \<noteq> None
         then if thread_rank warp_group_g p = 0
              then out1\<lparr>v_covars := atomicAdds (v_covars out1) (gid * 6)
                          (covar_out (\<lambda>c r. total (\<lambda>i. v_covar (L i) c r)))\<rparr>
              else out1
         else if thread_rank warp_group_g p = 0
              then out1\<lparr>v_quats := atomicAdds (v_quats out1) (gid * 4)
                          [total (\<lambda>i. v_quat (L i) 0), total (\<lambda>i. v_quat (L i) 1),
                           total (\<lambda>i. v_quat (L i) 2), total (\<lambda>i. v_quat (L i) 3)],
                        v_scales := atomicAdds (v_scales out1) (gid * 3)
                          [total (\<lambda>i. v_scale (L i) 0), total (\<lambda>i. v_scale (L i) 1),
                           total (\<lambda>i. v_scale (L i) 2)]\<rparr>
              else out1)"

text \<open>Lines 206 to 222, for lane \<open>p\<close> of the warp \<open>ws\<close>.\<close>

definition write_viewmats :: "bwd_args \<Rightarrow> nat list \<Rightarrow> nat \<Rightarrow> grad_ptrs \<Rightarrow> grad_ptrs" where
  "write_viewmats A ws p out =
     (if v_viewmats out \<noteq> None
      then let cid = camera_ids A (int (ws ! p));
               L = local_vjp A;
               warp_group_c = labeled_partition (camera_ids A) ws p;
               total = (\<lambda>val. warpSum val ws warp_group_c)
           in if thread_rank warp_group_c p = 0
              then out\<lparr>v_viewmats := atomicAdds (v_viewmats out) (cid * 16)
                         (viewmat_out (\<lambda>c r. total (\<lambda>i. v_R (L i) c r))
                                      (\<lambda>r. total (\<lambda>i. v_t (L i) r)))\<rparr>
              else out
      else out)"

text \<open>The write-out of one thread, lines 125 to 222.\<close>

definition bwd_thread :: "bwd_args \<Rightarrow> nat list \<Rightarrow> nat \<Rightarrow> grad_ptrs \<Rightarrow> grad_ptrs" where
  "bwd_thread A ws p out =
     write_viewmats A ws p
       (if sparse_grad A then write_sparse A (ws ! p) out else write_dense A ws p out)"

text \<open>
  The launch has \<open>num_blocks\<close> blocks of \<open>N_THREADS\<close> threads, and a warp is 32 consecutive
  ranks of a block. A thread returns at line 50 when its (truncated) grid rank is not
  below \<open>nnz\<close>; \<open>grid_warps\<close> lists, warp by warp, the record indices of the threads
  that go on.
\<close>

definition grid_warps :: "nat \<Rightarrow> nat \<Rightarrow> nat \<Rightarrow> nat list list" where
  "grid_warps N_THREADS num_blocks n =
     concat (map (\<lambda>blk. map (\<lambda>w. filter (\<lambda>idx. idx < n)
                                   (map (\<lambda>r. u32 (int blk * int N_THREADS + int r))
                                        [32 * w ..< min (32 * w + 32) N_THREADS]))
                            [0 ..< (N_THREADS + 31) div 32])
                 [0 ..< num_blocks])"

text \<open>
  The kernel on the whole grid. The threads run here warp after warp and lane after lane;
  each effect is a store to slots of the thread's own record or an \<^verbatim>\<open>atomicAdd\<close>.
\<close>

definition bwd_warp :: "bwd_args \<Rightarrow> nat list \<Rightarrow> grad_ptrs \<Rightarrow> grad_ptrs" where
  "bwd_warp A ws out = fold (bwd_thread A ws) [0..<length ws] out"

definition fully_fused_projection_packed_bwd_kernel ::
  "bwd_args \<Rightarrow> nat \<Rightarrow> nat \<Rightarrow> grad_ptrs \<Rightarrow> grad_ptrs" where
  "fully_fused_projection_packed_bwd_kernel A N_THREADS num_blocks out =
     fold (bwd_warp A) (grid_warps N_THREADS num_blocks (nnz A)) out"

text \<open>
  Lines 73 to 78. A thread that goes on past line 50 enters the branch of line 73 when
  \<^verbatim>\<open>v_compensations\<close> is not null, and line 75 then reads \<^verbatim>\<open>compensations[idx]\<close> without
  looking at \<^verbatim>\<open>compensations\<close>. The two arguments say which of the two pointers are
  null; the result says whether the read of line 75 goes through a null pointer. What
  \<open>local_vjp\<close> holds for such a thread is whatever the device makes of that read.
\<close>

definition reads_null_compensations :: "bool \<Rightarrow> bool \<Rightarrow> bool" where
  "reads_null_compensations compensations_null v_compensations_null =
     (\<not> v_compensations_null \<and> compensations_null)"

text \<open>The record indices of the threads of a launch that read through a null pointer at
  line 75, warp by warp.\<close>

definition kernel_null_reads :: "bool \<Rightarrow> bool \<Rightarrow> nat \<Rightarrow> nat \<Rightarrow> nat \<Rightarrow> nat list" where
  "kernel_null_reads compensations_null v_compensations_null N_THREADS num_blocks n =
     (if reads_null_compensations compensations_null v_compensations_null
      then concat (grid_warps N_THREADS num_blocks n)
      else [])"


section \<open>Projection backward entry point\<close>

text \<open>
  A call of the entry point: the kernel arguments, the \<^verbatim>\<open>uint32_t\<close> locals \<^verbatim>\<open>N\<close> and
  \<^verbatim>\<open>C\<close> (\<open>nnz\<close> is among the kernel arguments), the sizes of the tensors that
  \<^verbatim>\<open>zeros_like\<close> copies (\<open>None\<close> for an optional without a value), which optionals have a
  value, the two flags, and three things the file takes from elsewhere: what
  \<^verbatim>\<open>CHECK_INPUT\<close> finds, the constant \<^verbatim>\<open>N_THREADS\<close> of helpers.cuh, and whether the
  translation unit is compiled with \<^verbatim>\<open>NDEBUG\<close>, which turns \<^verbatim>\<open>assert\<close> into nothing.
\<close>

record bwd_call = bwd_args +
  bwd_N :: nat
  bwd_C :: nat
  means_sizes :: "nat list"
  covars_sizes :: "nat list option"
  quats_sizes :: "nat list option"
  scales_sizes :: "nat list option"
  viewmats_sizes :: "nat list"
  compensations_has_value :: bool
  v_compensations_has_value :: bool
  viewmats_requires_grad :: bool
  bwd_check_input :: "string \<Rightarrow> bool"
  N_THREADS :: nat
  NDEBUG :: bool

text \<open>Lines 255 to 269.\<close>

definition bwd_checks_tail :: "bwd_call \<Rightarrow> error option" where
  "bwd_checks_tail call =
     require (bwd_check_input call ''viewmats'') (Check_Input ''viewmats'')
    (require (bwd_check_input call ''Ks'') (Check_Input ''Ks'')
    (require (bwd_check_input call ''camera_ids'') (Check_Input ''camera_ids'')
    (require (bwd_check_input call ''gaussian_ids'') (Check_Input ''gaussian_ids'')
    (require (bwd_check_input call ''conics'') (Check_Input ''conics'')
    (require (bwd_check_input call ''v_means2d'') (Check_Input ''v_means2d'')
    (require (bwd_check_input call ''v_depths'') (Check_Input ''v_depths'')
    (require (bwd_check_input call ''v_conics'') (Check_Input ''v_conics'')
    (require (\<not> compensations_has_value call \<or> bwd_check_input call ''compensations.value()'')
       (Check_Input ''compensations.value()'')
    (if v_compensations_has_value call
     then require (bwd_check_input call ''v_compensations.value()'')
            (Check_Input ''v_compensations.value()'')
         (require (NDEBUG call \<or> compensations_has_value call)
            (Assertion_Failed ''compensations.has_value()'') None)
     else None)))))))))"

text \<open>Lines 246 to 269. \<^verbatim>\<open>value()\<close> of an optional without a value throws.\<close>

definition bwd_checks :: "bwd_call \<Rightarrow> error option" where
  "bwd_checks call =
     require (bwd_check_input call ''means'') (Check_Input ''means'')
    (if covars_sizes call \<noteq> None
     then require (bwd_check_input call ''covars.value()'') (Check_Input ''covars.value()'')
            (bwd_checks_tail call)
     else require (NDEBUG call \<or> (quats_sizes call \<noteq> None \<and> scales_sizes call \<noteq> None))
            (Assertion_Failed ''quats.has_value() && scales.has_value()'')
         (require (quats_sizes call \<noteq> None) Bad_Optional_Access
         (require (bwd_check_input call ''quats.value()'') (Check_Input ''quats.value()'')
         (require (scales_sizes call \<noteq> None) Bad_Optional_Access
         (require (bwd_check_input call ''scales.value()'') (Check_Input ''scales.value()'')
            (bwd_checks_tail call))))))"

text \<open>The sizes of the five tensors returned; \<open>None\<close> is a tensor left undefined.\<close>

record grad_sizes =
  v_means_sizes :: "nat list option"
  v_covars_sizes :: "nat list option"
  v_quats_sizes :: "nat list option"
  v_scales_sizes :: "nat list option"
  v_viewmats_sizes :: "nat list option"

text \<open>Lines 276 to 299.\<close>

definition alloc_sizes :: "bwd_call \<Rightarrow> grad_sizes" where
  "alloc_sizes call =
     (if sparse_grad call
      then \<lparr>v_means_sizes = Some [nnz call, 3],
            v_covars_sizes = (if covars_sizes call \<noteq> None then Some [nnz call, 6] else None),
            v_quats_sizes = (if covars_sizes call \<noteq> None then None else Some [nnz call, 4]),
            v_scales_sizes = (if covars_sizes call \<noteq> None then None else Some [nnz call, 3]),
            v_viewmats_sizes = (if viewmats_requires_grad call then Some [bwd_C call, 4, 4]
                                else None)\<rparr>
      else \<lparr>v_means_sizes = Some (means_sizes call),
            v_covars_sizes = covars_sizes call,
            v_quats_sizes = (if covars_sizes call \<noteq> None then None else quats_sizes call),
            v_scales_sizes = (if covars_sizes call \<noteq> None then None else scales_sizes call),
            v_viewmats_sizes = (if viewmats_requires_grad call then Some (viewmats_sizes call)
                                else None)\<rparr>)"

text \<open>The pointers handed to the kernel, lines 316 to 320, to buffers that
  \<^verbatim>\<open>torch::zeros\<close> has filled.\<close>

definition zero_ptrs :: "bwd_call \<Rightarrow> grad_ptrs" where
  "zero_ptrs call =
     \<lparr>v_means = Some (\<lambda>a. 0),
      v_covars = (if covars_sizes call \<noteq> None then Some (\<lambda>a. 0) else None),
      v_quats = (if covars_sizes call \<noteq> None then None else Some (\<lambda>a. 0)),
      v_scales = (if covars_sizes call \<noteq> None then None else Some (\<lambda>a. 0)),
      v_viewmats = (if viewmats_requires_grad call then Some (\<lambda>a. 0) else None)\<rparr>"

record bwd_launch =
  launch_num_blocks :: nat
  launch_block_threads :: nat

record bwd_result =
  result_sizes :: grad_sizes
  result_data :: grad_ptrs

text \<open>Line 301, in \<^verbatim>\<open>uint32_t\<close>.\<close>

definition bwd_num_blocks :: "bwd_call \<Rightarrow> nat" where
  "bwd_num_blocks call = u32 (int (nnz call) + int (N_THREADS call) - 1) div N_THREADS call"

text \<open>The entry point: the kernels launched, and the error thrown or the tuple returned.\<close>

definition fully_fused_projection_packed_bwd_tensor ::
  "bwd_call \<Rightarrow> bwd_launch list \<times> (error + bwd_result)" where
  "fully_fused_projection_packed_bwd_tensor call =
     (case bwd_checks call of
        Some e \<Rightarrow> ([], Inl e)
      | None \<Rightarrow>
         (if nnz call \<noteq> 0
          then ([\<lparr>launch_num_blocks = bwd_num_blocks call,
                   launch_block_threads = N_THREADS call\<rparr>],
                Inr \<lparr>result_sizes = alloc_sizes call,
                     result_data = fully_fused_projection_packed_bwd_kernel
                        (bwd_args.truncate call) (N_THREADS call) (bwd_num_blocks call)
                        (zero_ptrs call)\<rparr>)
          else ([], Inr \<lparr>result_sizes = alloc_sizes call, result_data = zero_ptrs call\<rparr>)))"

text \<open>
  Lines 310 to 315 pass a null pointer for an optional without a value. The records whose
  threads read \<^verbatim>\<open>compensations[idx]\<close> through a null pointer in the kernel that a call
  launches; none when the call throws or launches nothing.
\<close>

definition bwd_null_reads :: "bwd_call \<Rightarrow> nat list" where
  "bwd_null_reads call =
     (case bwd_checks call of
        Some e \<Rightarrow> []
      | None \<Rightarrow>
         (if nnz call \<noteq> 0
          then kernel_null_reads (\<not> compensations_has_value call)
                 (\<not> v_compensations_has_value call)
                 (N_THREADS call) (bwd_num_blocks call) (nnz call)
          else []))"

section \<open>Derived notions and example inputs\<close>

text \<open>The test of line 120 for the record at flattened index \<open>idx\<close>, as a thread at pixel
  centre \<open>(px, py)\<close> evaluates it once the record is in its slot.\<close>

definition record_skipped :: "fwd_args \<Rightarrow> real \<Rightarrow> real \<Rightarrow> int \<Rightarrow> bool" where
  "record_skipped A px py idx =
     (let g = flatten_ids A idx;
          xy_opac = \<lparr>x = x (means2d A g), y = y (means2d A g), z = opacities A g\<rparr>;
          sigma = gauss_sigma (conics A g) xy_opac px py
      in skipped sigma (gauss_alpha (opacities A g) sigma))"

text \<open>
  A one-pixel image with one tile and one thread per block. Two records of opacity 1 sit
  on the pixel centre, so each has \<open>sigma = 0\<close> and \<open>alpha = 0.999\<close>: the first takes the
  transmittance from 1 to 0.001 (the state \<open>ex_first\<close>), and the second would take it to
  0.000001. \<open>ex_batch\<close> is the shared memory holding the second record.
\<close>

definition ex_args :: fwd_args where
  "ex_args = \<lparr>num_C = 1, num_N = 2, n_isects = 2, packed = False,
     means2d = (\<lambda>g. \<lparr>x = 1 / 2, y = 1 / 2\<rparr>),
     conics = (\<lambda>g. \<lparr>x = 1, y = 0, z = 1\<rparr>),
     colors = (\<lambda>a. 1), opacities = (\<lambda>g. 1), backgrounds = None,
     image_width = 1, image_height = 1, tile_size = 1, tile_width = 1, tile_height = 1,
     tile_offsets = (\<lambda>a. 0), flatten_ids = (\<lambda>a. a)\<rparr>"

definition ex_ctx :: thread_ctx where
  "ex_ctx = \<lparr>group_index_x = 0, group_index_y = 0, group_index_z = 0,
     thread_index_x = 0, thread_index_y = 0, block_dim_x = 1, block_dim_y = 1,
     others_done = (\<lambda>b. True)\<rparr>"

definition ex_shared :: shared_batch where
  "ex_shared = \<lparr>id_batch = (\<lambda>t. 0),
     xy_opacity_batch = (\<lambda>t. \<lparr>x = 0, y = 0, z = 0\<rparr>),
     conic_batch = (\<lambda>t. \<lparr>x = 0, y = 0, z = 0\<rparr>)\<rparr>"

definition ex_batch :: shared_batch where
  "ex_batch = load_batch ex_args 1 2 1 ex_shared"

definition ex_first :: pix_state where
  "ex_first = composite_slot 1 ex_args (load_batch ex_args 0 2 1 ex_shared) (1 / 2) (1 / 2) 0 0
                (init_state ex_args ex_ctx)"

text \<open>The same scene with both opacities 0 and a background of 1/4 in every channel.\<close>

definition ex_clear :: fwd_args where
  "ex_clear = ex_args\<lparr>opacities := (\<lambda>g. 0), backgrounds := Some (\<lambda>a. 1 / 4)\<rparr>"

text \<open>The launch of the forward entry point on that scene, with a channel count of 7.\<close>

definition ex_call :: fwd_call where
  "ex_call = \<lparr>num_C = 1, num_N = 2, n_isects = 2, packed = False,
     means2d = (\<lambda>g. \<lparr>x = 1 / 2, y = 1 / 2\<rparr>),
     conics = (\<lambda>g. \<lparr>x = 1, y = 0, z = 1\<rparr>),
     colors = (\<lambda>a. 1), opacities = (\<lambda>g. 1), backgrounds = None,
     image_width = 1, image_height = 1, tile_size = 1, tile_width = 1, tile_height = 1,
     tile_offsets = (\<lambda>a. 0), flatten_ids = (\<lambda>a. a),
     channels = 7, check_input = (\<lambda>name. True), set_attribute_ok = (\<lambda>cd sz. True)\<rparr>"

section \<open>Derived notions for the backward kernel\<close>

text \<open>What an \<open>atomicAdd_list\<close> of \<open>vs\<close> from offset \<open>base\<close> adds at offset \<open>a\<close>.\<close>

definition add_at :: "int \<Rightarrow> real list \<Rightarrow> int \<Rightarrow> real" where
  "add_at base vs a =
     (if base \<le> a \<and> a < base + int (length vs) then vs ! nat (a - base) else 0)"

text \<open>
  The values a thread writes for its record, buffer by buffer: the right-hand sides of the
  assignments of lines 129 to 156, in the order of their offsets.
\<close>

definition mean_vals :: "bwd_args \<Rightarrow> nat \<Rightarrow> real list" where
  "mean_vals A idx = [v_mean (local_vjp A idx) 0, v_mean (local_vjp A idx) 1,
                      v_mean (local_vjp A idx) 2]"

definition covar_vals :: "bwd_args \<Rightarrow> nat \<Rightarrow> real list" where
  "covar_vals A idx = covar_out (v_covar (local_vjp A idx))"

definition quat_vals :: "bwd_args \<Rightarrow> nat \<Rightarrow> real list" where
  "quat_vals A idx = [v_quat (local_vjp A idx) 0, v_quat (local_vjp A idx) 1,
                      v_quat (local_vjp A idx) 2, v_quat (local_vjp A idx) 3]"

definition scale_vals :: "bwd_args \<Rightarrow> nat \<Rightarrow> real list" where
  "scale_vals A idx = [v_scale (local_vjp A idx) 0, v_scale (local_vjp A idx) 1,
                       v_scale (local_vjp A idx) 2]"

definition viewmat_vals :: "bwd_args \<Rightarrow> nat \<Rightarrow> real list" where
  "viewmat_vals A idx = viewmat_out (v_R (local_vjp A idx)) (v_t (local_vjp A idx))"

text \<open>
  One thread's update of one buffer. In the sparse layout it stores its \<open>W\<close> values at
  \<open>idx * W\<close>. In the dense layout the lane of rank 0 in its group adds the group's sums
  at \<open>label * stride\<close>. \<open>prim_step\<close> chooses between the two as line 126 does.
\<close>

definition sparse_step ::
  "(nat \<Rightarrow> real list) \<Rightarrow> nat \<Rightarrow> nat \<Rightarrow> (int \<Rightarrow> real) option \<Rightarrow> (int \<Rightarrow> real) option" where
  "sparse_step vals W idx ptr = stores ptr (int (u32 (int idx * int W))) (vals idx)"

definition dense_step ::
  "(int \<Rightarrow> int) \<Rightarrow> int \<Rightarrow> (nat \<Rightarrow> real list) \<Rightarrow> nat \<Rightarrow> nat list \<Rightarrow> nat
     \<Rightarrow> (int \<Rightarrow> real) option \<Rightarrow> (int \<Rightarrow> real) option" where
  "dense_step label stride vals W ws p ptr =
     (if thread_rank (labeled_partition label ws p) p = 0
      then atomicAdds ptr (label (int (ws ! p)) * stride)
             (map (\<lambda>k. warpSum (\<lambda>i. vals i ! k) ws (labeled_partition label ws p)) [0..<W])
      else ptr)"

definition prim_step ::
  "bwd_args \<Rightarrow> (nat \<Rightarrow> real list) \<Rightarrow> nat \<Rightarrow> nat list \<Rightarrow> nat
     \<Rightarrow> (int \<Rightarrow> real) option \<Rightarrow> (int \<Rightarrow> real) option" where
  "prim_step A vals W ws p ptr =
     (if sparse_grad A then sparse_step vals W (ws ! p) ptr
      else dense_step (gaussian_ids A) (int W) vals W ws p ptr)"

text \<open>
  The specification's "sum of sparse mode's per-record results grouped by primitive id":
  component \<open>k\<close> of the \<open>W\<close>-wide rows of a sparse buffer \<open>ms\<close>, summed over the records
  \<open>idx < n\<close> whose label is \<open>g\<close>.
\<close>

definition grouped_total :: "(int \<Rightarrow> int) \<Rightarrow> nat \<Rightarrow> nat \<Rightarrow> (int \<Rightarrow> real) \<Rightarrow> int \<Rightarrow> nat \<Rightarrow> real" where
  "grouped_total label n W ms g k =
     (\<Sum>idx\<leftarrow>filter (\<lambda>idx. label (int idx) = g) [0..<n]. ms (int (idx * W) + int k))"

text \<open>The buffers the backward entry point returns when its checks pass, lines 300 to
  322.\<close>

definition run_data :: "bwd_call \<Rightarrow> grad_ptrs" where
  "run_data call =
     (if nnz call \<noteq> 0
      then fully_fused_projection_packed_bwd_kernel (bwd_args.truncate call) (N_THREADS call)
             (bwd_num_blocks call) (zero_ptrs call)
      else zero_ptrs call)"

text \<open>
  Two records of one primitive seen by one camera, every local gradient component 1, a
  precomputed covariance, camera gradients requested, and no compensation. \<open>ex_ndebug\<close>
  is the same call with a compensation gradient and still no compensation, in a build
  with \<^verbatim>\<open>NDEBUG\<close>.
\<close>

definition ex_bwd :: bwd_call where
  "ex_bwd = \<lparr>nnz = 2, camera_ids = (\<lambda>i. 0), gaussian_ids = (\<lambda>i. 0), sparse_grad = False,
     local_vjp = (\<lambda>idx. \<lparr>v_mean = (\<lambda>i. 1), v_covar = (\<lambda>c r. 1), v_quat = (\<lambda>i. 1),
                           v_scale = (\<lambda>i. 1), v_R = (\<lambda>c r. 1), v_t = (\<lambda>i. 1)\<rparr>),
     bwd_N = 1, bwd_C = 1, means_sizes = [1, 3], covars_sizes = Some [1, 6],
     quats_sizes = None, scales_sizes = None, viewmats_sizes = [1, 4, 4],
     compensations_has_value = False, v_compensations_has_value = False,
     viewmats_requires_grad = True, bwd_check_input = (\<lambda>name. True),
     N_THREADS = 256, NDEBUG = False\<rparr>"

definition ex_ndebug :: bwd_call where
  "ex_ndebug = ex_bwd\<lparr>v_compensations_has_value := True, NDEBUG := True\<rparr>"

section \<open>Properties of the forward kernel\<close>


lemma gauss_alpha_le: "gauss_alpha opac sg \<le> 999 / 1000"
  by (simp add: gauss_alpha_def)

lemma composite_slot_cases:
  "composite_slot cd A sh px py bs t st = st
   \<or> composite_slot cd A sh px py bs t st = st\<lparr>is_done := True\<rparr>
   \<or> (\<exists>al. 1 / 255 \<le> al \<and> al \<le> 999 / 1000 \<and> 1 / 10000 < T st * (1 - al)
        \<and> T (composite_slot cd A sh px py bs t st) = T st * (1 - al)
        \<and> is_done (composite_slot cd A sh px py bs t st) = is_done st)"
proof -
  define sg where "sg = gauss_sigma (conic_batch sh t) (xy_opacity_batch sh t) px py"
  define al where "al = gauss_alpha (z (xy_opacity_batch sh t)) sg"
  show ?thesis
  proof (cases "skipped sg al")
    case True
    then show ?thesis by (simp add: composite_slot_def Let_def sg_def al_def)
  next
    case False
    note ns = this
    show ?thesis
    proof (cases "T st * (1 - al) \<le> 1 / 10000")
      case True
      then show ?thesis using ns by (simp add: composite_slot_def Let_def sg_def al_def)
    next
      case False
      have "1 / 255 \<le> al" using ns by (simp add: skipped_def)
      moreover have "al \<le> 999 / 1000" unfolding al_def by (rule gauss_alpha_le)
      moreover have "T (composite_slot cd A sh px py bs t st) = T st * (1 - al)"
        "is_done (composite_slot cd A sh px py bs t st) = is_done st"
        using ns False by (simp_all add: composite_slot_def Let_def sg_def al_def)
      ultimately show ?thesis using False by (intro disjI2 exI [of _ al]) simp
    qed
  qed
qed

lemma composite_slot_T_le:
  assumes "0 \<le> T st"
  shows "T (composite_slot cd A sh px py bs t st) \<le> T st"
proof -
  from composite_slot_cases [of cd A sh px py bs t st]
  consider "composite_slot cd A sh px py bs t st = st"
    | "composite_slot cd A sh px py bs t st = st\<lparr>is_done := True\<rparr>"
    | al where "1 / 255 \<le> al" "al \<le> 999 / 1000"
        "T (composite_slot cd A sh px py bs t st) = T st * (1 - al)"
    by blast
  then show ?thesis
  proof cases
    case 3
    have "T st * (1 - al) \<le> T st * 1"
      using assms 3(1) by (intro mult_left_mono) auto
    with 3 show ?thesis by simp
  qed auto
qed

lemma composite_slot_T_nonneg:
  assumes "0 \<le> T st"
  shows "0 \<le> T (composite_slot cd A sh px py bs t st)"
  using composite_slot_cases [of cd A sh px py bs t st] assms by auto

lemma composite_slot_T_gt:
  assumes "1 / 10000 < T st"
  shows "1 / 10000 < T (composite_slot cd A sh px py bs t st)"
  using composite_slot_cases [of cd A sh px py bs t st] assms by auto

lemma batch_loop_step:
  "t < n \<Longrightarrow> \<not> is_done st \<Longrightarrow>
   batch_loop cd A sh px py bs n t st
     = batch_loop cd A sh px py bs n (t + 1) (composite_slot cd A sh px py bs t st)"
  by (subst batch_loop.simps) simp

lemma batch_loop_stop:
  "\<not> (t < n \<and> \<not> is_done st) \<Longrightarrow> batch_loop cd A sh px py bs n t st = st"
  by (subst batch_loop.simps) auto

lemma batch_loop_done: "is_done st \<Longrightarrow> batch_loop cd A sh px py bs n t st = st"
  by (simp add: batch_loop_stop)

lemma batch_loop_T_gt:
  "1 / 10000 < T st \<Longrightarrow> 1 / 10000 < T (batch_loop cd A sh px py bs n t st)"
proof (induction cd A sh px py bs n t st rule: batch_loop.induct)
  case (1 cd A sh px py bs n t st)
  show ?case
  proof (cases "t < n \<and> \<not> is_done st")
    case True
    then show ?thesis
      using 1 composite_slot_T_gt by (simp add: batch_loop_step)
  next
    case False
    then show ?thesis using 1 by (simp add: batch_loop_stop)
  qed
qed

lemma batch_loop_T_le:
  "0 \<le> T st \<Longrightarrow> T (batch_loop cd A sh px py bs n t st) \<le> T st
     \<and> 0 \<le> T (batch_loop cd A sh px py bs n t st)"
proof (induction cd A sh px py bs n t st rule: batch_loop.induct)
  case (1 cd A sh px py bs n t st)
  show ?case
  proof (cases "t < n \<and> \<not> is_done st")
    case True
    let ?st1 = "composite_slot cd A sh px py bs t st"
    have nn: "0 \<le> T ?st1" using 1(2) by (rule composite_slot_T_nonneg)
    have ih: "T (batch_loop cd A sh px py bs n (t + 1) ?st1) \<le> T ?st1
              \<and> 0 \<le> T (batch_loop cd A sh px py bs n (t + 1) ?st1)"
      using 1(1) True nn by blast
    moreover have "T ?st1 \<le> T st" using 1(2) by (rule composite_slot_T_le)
    ultimately show ?thesis using True by (simp add: batch_loop_step)
  next
    case False
    then show ?thesis using 1(2) by (simp add: batch_loop_stop)
  qed
qed

lemma tile_loop_step:
  "b < nb \<Longrightarrow> \<not> (is_done st \<and> others_done ctx b) \<Longrightarrow>
   tile_loop cd A ctx px py rs re blk nb b (sh, st)
     = tile_loop cd A ctx px py rs re blk nb (b + 1)
         (load_batch A (u32 (rs + int blk * int b)) re blk sh,
          batch_loop cd A (load_batch A (u32 (rs + int blk * int b)) re blk sh) px py
            (u32 (rs + int blk * int b))
            (min blk (u32 (re - int (u32 (rs + int blk * int b))))) 0 st)"
  by (subst tile_loop.simps) (auto simp: Let_def)

lemma tile_loop_stop:
  "\<not> b < nb \<or> (is_done st \<and> others_done ctx b) \<Longrightarrow>
   tile_loop cd A ctx px py rs re blk nb b (sh, st) = (sh, st)"
  by (subst tile_loop.simps) auto

lemma tile_loop_done:
  "is_done st \<Longrightarrow> snd (tile_loop cd A ctx px py rs re blk nb b (sh, st)) = st"
proof (induction cd A ctx px py rs re blk nb b "(sh, st)" arbitrary: sh rule: tile_loop.induct)
  case (1 cd A ctx px py rs re blk nb b sh)
  show ?case
  proof (cases "b < nb \<and> \<not> (is_done st \<and> others_done ctx b)")
    case True
    then show ?thesis using 1 by (simp add: tile_loop_step batch_loop_done)
  next
    case False
    then show ?thesis by (subst tile_loop_stop) auto
  qed
qed

lemma tile_loop_T_gt:
  "1 / 10000 < T st \<Longrightarrow> 1 / 10000 < T (snd (tile_loop cd A ctx px py rs re blk nb b (sh, st)))"
proof (induction cd A ctx px py rs re blk nb b "(sh, st)" arbitrary: sh st rule: tile_loop.induct)
  case (1 cd A ctx px py rs re blk nb b sh st)
  show ?case
  proof (cases "b < nb \<and> \<not> (is_done st \<and> others_done ctx b)")
    case True
    let ?bs = "u32 (rs + int blk * int b)"
    let ?sh = "load_batch A ?bs re blk sh"
    let ?st1 = "batch_loop cd A ?sh px py ?bs (min blk (u32 (re - int ?bs))) 0 st"
    have s1: "1 / 10000 < T ?st1" using 1(2) by (rule batch_loop_T_gt)
    have "1 / 10000 < T (snd (tile_loop cd A ctx px py rs re blk nb (b + 1) (?sh, ?st1)))"
      using 1(1) True s1 by (simp add: Let_def)
    then show ?thesis using True by (simp add: tile_loop_step)
  next
    case False
    then show ?thesis using 1(2) by (subst tile_loop_stop) auto
  qed
qed

lemma tile_loop_T_le:
  "0 \<le> T st \<Longrightarrow> T (snd (tile_loop cd A ctx px py rs re blk nb b (sh, st))) \<le> T st"
proof (induction cd A ctx px py rs re blk nb b "(sh, st)" arbitrary: sh st rule: tile_loop.induct)
  case (1 cd A ctx px py rs re blk nb b sh st)
  show ?case
  proof (cases "b < nb \<and> \<not> (is_done st \<and> others_done ctx b)")
    case True
    let ?bs = "u32 (rs + int blk * int b)"
    let ?sh = "load_batch A ?bs re blk sh"
    let ?st1 = "batch_loop cd A ?sh px py ?bs (min blk (u32 (re - int ?bs))) 0 st"
    have s1: "T ?st1 \<le> T st \<and> 0 \<le> T ?st1" using 1(2) by (rule batch_loop_T_le)
    have "T (snd (tile_loop cd A ctx px py rs re blk nb (b + 1) (?sh, ?st1))) \<le> T ?st1"
      using 1(1) True s1 by (simp add: Let_def)
    then show ?thesis using True s1 by (simp add: tile_loop_step)
  next
    case False
    then show ?thesis by (subst tile_loop_stop) auto
  qed
qed

lemma u32_id: "0 \<le> v \<Longrightarrow> v < 2 ^ 32 \<Longrightarrow> int (u32 v) = v"
  by (simp add: u32_def)

lemma u32_nat: "u32 (int n) = n mod 2 ^ 32"
  by (simp add: u32_def nat_mod_distrib)

lemma ex_inside: "inside ex_args ex_ctx"
  by (simp add: inside_def pixel_i_def pixel_j_def ex_args_def ex_ctx_def u32_def)

lemma ex_batch_slot:
  "xy_opacity_batch ex_batch 0 = \<lparr>x = 1 / 2, y = 1 / 2, z = 1\<rparr>"
  "conic_batch ex_batch 0 = \<lparr>x = 1, y = 0, z = 1\<rparr>"
  by (simp_all add: ex_batch_def load_batch_def Let_def ex_args_def u32_def)

lemma ex_first_eq:
  "ex_first = \<lparr>T = 1 / 1000, cur_idx = 0, pix_out = (\<lambda>k. if k < 1 then 999 / 1000 else 0),
               is_done = False\<rparr>"
  using ex_inside
  by (simp add: ex_first_def composite_slot_def load_batch_def Let_def ex_args_def u32_def
      init_state_def gauss_sigma_def gauss_alpha_def skipped_def fun_eq_iff)

lemma gauss_sigma_spec:
  "gauss_sigma conic xy_opac px py = sigma_spec conic (px - x xy_opac) (py - y xy_opac)"
  by (simp add: gauss_sigma_def sigma_spec_def Let_def power2_eq_square field_simps)

text \<open>
  C1. For a record that a thread has fetched into slot \<open>t\<close> of the batch, the exponent the
  pixel's thread computes is the conic quadratic form
  \<open>0.5 * (conic.x * dx\<^sup>2 + conic.z * dy\<^sup>2) + conic.y * dx * dy\<close> at \<open>(dx, dy)\<close> = pixel centre
  minus the record's 2D mean. The source subtracts the other way round; the form is even.
\<close>
theorem sigma_conic_quadratic_form:
  assumes "t < blk" and "u32 (int bstart + int t) < u32 re"
  shows "gauss_sigma (conic_batch (load_batch A bstart re blk sh) t)
           (xy_opacity_batch (load_batch A bstart re blk sh) t)
           (real (pixel_j A ctx) + 0.5) (real (pixel_i A ctx) + 0.5)
         = sigma_spec (conics A (flatten_ids A (int (u32 (int bstart + int t)))))
             (real (pixel_j A ctx) + 0.5 - x (means2d A (flatten_ids A (int (u32 (int bstart + int t))))))
             (real (pixel_i A ctx) + 0.5 - y (means2d A (flatten_ids A (int (u32 (int bstart + int t))))))"
  using assms by (simp add: gauss_sigma_spec load_batch_def Let_def)

theorem sigma_conic_quadratic_form_witness:
  "gauss_sigma (conic_batch (load_batch ex_args 1 2 1 ex_shared) 0)
           (xy_opacity_batch (load_batch ex_args 1 2 1 ex_shared) 0)
           (real (pixel_j ex_args ex_ctx) + 0.5) (real (pixel_i ex_args ex_ctx) + 0.5)
   = sigma_spec \<lparr>x = 1, y = 0, z = 1\<rparr> 0 0"
proof -
  have h1: "(0::nat) < 1" by simp
  have h2: "u32 (int 1 + int 0) < u32 2" by (simp add: u32_def)
  show ?thesis
    using sigma_conic_quadratic_form [OF h1 h2, of ex_args ex_shared ex_ctx]
    by (simp add: ex_args_def ex_ctx_def pixel_i_def pixel_j_def u32_def)
qed

lemma composite_slot_skip:
  "skipped (gauss_sigma (conic_batch sh t) (xy_opacity_batch sh t) px py)
     (gauss_alpha (z (xy_opacity_batch sh t))
        (gauss_sigma (conic_batch sh t) (xy_opacity_batch sh t) px py))
   \<Longrightarrow> composite_slot cd A sh px py bs t st = st"
  by (simp add: composite_slot_def Let_def)

lemma composite_slot_cutoff:
  "\<not> skipped (gauss_sigma (conic_batch sh t) (xy_opacity_batch sh t) px py)
     (gauss_alpha (z (xy_opacity_batch sh t))
        (gauss_sigma (conic_batch sh t) (xy_opacity_batch sh t) px py))
   \<Longrightarrow> T st * (1 - gauss_alpha (z (xy_opacity_batch sh t))
        (gauss_sigma (conic_batch sh t) (xy_opacity_batch sh t) px py)) \<le> 1 / 10000
   \<Longrightarrow> composite_slot cd A sh px py bs t st = st\<lparr>is_done := True\<rparr>"
  by (simp add: composite_slot_def Let_def)

lemma composite_slot_blend_T:
  "\<not> skipped (gauss_sigma (conic_batch sh t) (xy_opacity_batch sh t) px py)
     (gauss_alpha (z (xy_opacity_batch sh t))
        (gauss_sigma (conic_batch sh t) (xy_opacity_batch sh t) px py))
   \<Longrightarrow> \<not> T st * (1 - gauss_alpha (z (xy_opacity_batch sh t))
        (gauss_sigma (conic_batch sh t) (xy_opacity_batch sh t) px py)) \<le> 1 / 10000
   \<Longrightarrow> T (composite_slot cd A sh px py bs t st)
       = T st * (1 - gauss_alpha (z (xy_opacity_batch sh t))
        (gauss_sigma (conic_batch sh t) (xy_opacity_batch sh t) px py))"
  by (simp add: composite_slot_def Let_def)

text \<open>
  C2, amended. The compositor computes \<open>alpha = min(0.999, opacity * exp(-sigma))\<close>, and a
  record leaves the pixel's transmittance, colour and last-contributor index all
  unchanged if and only if \<open>sigma < 0\<close> or \<open>alpha < 1/255\<close> or \<open>T * (1 - alpha) \<le> 1e-4\<close>:
  besides the two skip tests, the record that reaches the cut-off contributes nothing.
\<close>
theorem slot_contributes_nothing_iff:
  fixes sh :: shared_batch and t bs cd :: nat and px py :: real
    and A :: fwd_args and st :: pix_state
  defines "sigma \<equiv> gauss_sigma (conic_batch sh t) (xy_opacity_batch sh t) px py"
  defines "alpha \<equiv> gauss_alpha (z (xy_opacity_batch sh t)) sigma"
  defines "st' \<equiv> composite_slot cd A sh px py bs t st"
  shows "alpha = min 0.999 (z (xy_opacity_batch sh t) * exp (- sigma))
       \<and> (T st' = T st \<and> pix_out st' = pix_out st \<and> cur_idx st' = cur_idx st
            \<longleftrightarrow> sigma < 0 \<or> alpha < 1 / 255 \<or> T st * (1 - alpha) \<le> 1 / 10000)"
proof -
  have a: "alpha = min 0.999 (z (xy_opacity_batch sh t) * exp (- sigma))"
    by (simp add: alpha_def gauss_alpha_def)
  have b: "T st' = T st \<and> pix_out st' = pix_out st \<and> cur_idx st' = cur_idx st
            \<longleftrightarrow> sigma < 0 \<or> alpha < 1 / 255 \<or> T st * (1 - alpha) \<le> 1 / 10000"
  proof (cases "skipped sigma alpha")
    case True
    then have "st' = st"
      unfolding st'_def sigma_def alpha_def by (rule composite_slot_skip)
    then show ?thesis using True by (auto simp: skipped_def)
  next
    case False
    note ns = this
    show ?thesis
    proof (cases "T st * (1 - alpha) \<le> 1 / 10000")
      case True
      then have "st' = st\<lparr>is_done := True\<rparr>"
        using ns unfolding st'_def sigma_def alpha_def by (intro composite_slot_cutoff)
      then show ?thesis using True by simp
    next
      case False
      have Teq: "T st' = T st * (1 - alpha)"
        using ns False unfolding st'_def sigma_def alpha_def by (intro composite_slot_blend_T)
      have al: "1 / 255 \<le> alpha" "alpha \<le> 999 / 1000"
        using ns gauss_alpha_le [of "z (xy_opacity_batch sh t)" sigma]
        by (simp_all add: skipped_def alpha_def)
      have "0 < T st"
      proof (rule ccontr)
        assume "\<not> 0 < T st"
        then have "T st * (1 - alpha) \<le> 0"
          using al by (intro mult_nonpos_nonneg) auto
        with False show False by simp
      qed
      then have "T st * (1 - alpha) < T st * 1"
        using al by (intro mult_strict_left_mono) auto
      then have "T st' < T st" unfolding Teq by simp
      then have "T st' \<noteq> T st" by linarith
      then show ?thesis using ns False by (auto simp: skipped_def)
    qed
  qed
  from a b show ?thesis by blast
qed

theorem slot_contributes_nothing_iff_witness:
  "T (composite_slot 1 ex_args ex_batch (1 / 2) (1 / 2) 1 0 ex_first) = T ex_first
   \<and> pix_out (composite_slot 1 ex_args ex_batch (1 / 2) (1 / 2) 1 0 ex_first) = pix_out ex_first
   \<and> cur_idx (composite_slot 1 ex_args ex_batch (1 / 2) (1 / 2) 1 0 ex_first) = cur_idx ex_first"
  using slot_contributes_nothing_iff [of ex_batch 0 "1 / 2" "1 / 2" 1 ex_args 1 ex_first]
  by (simp add: ex_batch_slot ex_first_eq gauss_sigma_def gauss_alpha_def)

text \<open>
  C2 as stated fails. With the transmittance at 0.001 and the pixel not done, a record with
  \<open>sigma = 0\<close> and \<open>alpha = 0.999\<close> passes both skip tests and still leaves transmittance,
  colour and last-contributor index unchanged, since \<open>0.001 * 0.001 \<le> 1e-4\<close>.
\<close>
theorem skip_test_not_only_cause_counterexample:
  "\<not> (\<not> is_done ex_first \<longrightarrow>
       (T (composite_slot 1 ex_args ex_batch (1 / 2) (1 / 2) 1 0 ex_first) = T ex_first
        \<and> pix_out (composite_slot 1 ex_args ex_batch (1 / 2) (1 / 2) 1 0 ex_first) = pix_out ex_first
        \<and> cur_idx (composite_slot 1 ex_args ex_batch (1 / 2) (1 / 2) 1 0 ex_first) = cur_idx ex_first
        \<longleftrightarrow> gauss_sigma (conic_batch ex_batch 0) (xy_opacity_batch ex_batch 0) (1 / 2) (1 / 2) < 0
          \<or> gauss_alpha (z (xy_opacity_batch ex_batch 0))
              (gauss_sigma (conic_batch ex_batch 0) (xy_opacity_batch ex_batch 0) (1 / 2) (1 / 2))
             < 1 / 255))"
  by (simp add: composite_slot_def Let_def ex_batch_slot ex_first_eq gauss_sigma_def
      gauss_alpha_def skipped_def)

text \<open>
  C3. When a record that is not skipped yields \<open>T * (1 - alpha) \<le> 1e-4\<close>, the pixel is
  marked done and nothing that follows changes it: the rest of the batch and every later
  batch of the tile's range leave the registers as they were, with the flag set. The
  result is an ordinary state of the loop, not an error.
\<close>
theorem cutoff_ends_pixel:
  fixes sh :: shared_batch and t :: nat and px py :: real
  defines "sigma \<equiv> gauss_sigma (conic_batch sh t) (xy_opacity_batch sh t) px py"
  defines "alpha \<equiv> gauss_alpha (z (xy_opacity_batch sh t)) sigma"
  assumes "\<not> is_done st" and "t < batch_size"
    and "\<not> skipped sigma alpha" and "T st * (1 - alpha) \<le> 1 / 10000"
  shows "snd (tile_loop cd A ctx px py rs re blk nb b
                (sh, batch_loop cd A sh px py bs batch_size t st))
         = st\<lparr>is_done := True\<rparr>"
proof -
  have "composite_slot cd A sh px py bs t st = st\<lparr>is_done := True\<rparr>"
    using assms(5,6) unfolding sigma_def alpha_def by (intro composite_slot_cutoff)
  then have "batch_loop cd A sh px py bs batch_size t st = st\<lparr>is_done := True\<rparr>"
    using assms(3,4) by (simp add: batch_loop_step batch_loop_done)
  then show ?thesis by (simp add: tile_loop_done)
qed

theorem cutoff_ends_pixel_witness:
  "snd (tile_loop 1 ex_args ex_ctx (1 / 2) (1 / 2) 0 2 1 2 2
          (ex_batch, batch_loop 1 ex_args ex_batch (1 / 2) (1 / 2) 1 1 0 ex_first))
   = ex_first\<lparr>is_done := True\<rparr>"
proof -
  have h1: "\<not> is_done ex_first" by (simp add: ex_first_eq)
  have h2: "(0::nat) < 1" by simp
  have h3: "\<not> skipped (gauss_sigma (conic_batch ex_batch 0) (xy_opacity_batch ex_batch 0) (1 / 2) (1 / 2))
                (gauss_alpha (z (xy_opacity_batch ex_batch 0))
                   (gauss_sigma (conic_batch ex_batch 0) (xy_opacity_batch ex_batch 0) (1 / 2) (1 / 2)))"
    by (simp add: ex_batch_slot gauss_sigma_def gauss_alpha_def skipped_def)
  have h4: "T ex_first * (1 - gauss_alpha (z (xy_opacity_batch ex_batch 0))
                   (gauss_sigma (conic_batch ex_batch 0) (xy_opacity_batch ex_batch 0) (1 / 2) (1 / 2)))
            \<le> 1 / 10000"
    by (simp add: ex_batch_slot ex_first_eq gauss_sigma_def gauss_alpha_def)
  show ?thesis by (rule cutoff_ends_pixel [OF h1 h2 h3 h4])
qed

text \<open>
  C4. The transmittance starts at 1, each record multiplies it by a factor in \<open>[0, 1]\<close>,
  and from any point of the run on (a non-negative \<open>T\<close>, as every reachable one is) it
  never increases: not over one record, the rest of a batch, or the rest of the tile's
  range. So the coverage \<open>1 - T\<close> never decreases.
\<close>
theorem transmittance_non_increasing:
  assumes "0 \<le> T st"
  shows "T (init_state A ctx) = 1
       \<and> (\<exists>f. 0 \<le> f \<and> f \<le> 1 \<and> T (composite_slot cd A sh px py bs t st) = T st * f)
       \<and> T (composite_slot cd A sh px py bs t st) \<le> T st
       \<and> T (batch_loop cd A sh px py bs n t st) \<le> T st
       \<and> T (snd (tile_loop cd A ctx px py rs re blk nb b (sh, st))) \<le> T st
       \<and> 1 - T st \<le> 1 - T (snd (tile_loop cd A ctx px py rs re blk nb b (sh, st)))"
proof -
  have "\<exists>f. 0 \<le> f \<and> f \<le> 1 \<and> T (composite_slot cd A sh px py bs t st) = T st * f"
  proof -
    from composite_slot_cases [of cd A sh px py bs t st]
    consider "T (composite_slot cd A sh px py bs t st) = T st"
      | al where "1 / 255 \<le> al" "al \<le> 999 / 1000"
          "T (composite_slot cd A sh px py bs t st) = T st * (1 - al)"
      by auto
    then show ?thesis
    proof cases
      case 1
      then show ?thesis by (intro exI [of _ 1]) simp
    next
      case 2
      then show ?thesis by (intro exI [of _ "1 - al"]) simp
    qed
  qed
  moreover have "T (snd (tile_loop cd A ctx px py rs re blk nb b (sh, st))) \<le> T st"
    using assms by (rule tile_loop_T_le)
  ultimately show ?thesis
    using assms composite_slot_T_le [OF assms] batch_loop_T_le [OF assms]
    by (simp add: init_state_def)
qed

theorem transmittance_non_increasing_witness:
  "T (snd (tile_loop 1 ex_args ex_ctx (1 / 2) (1 / 2) 0 2 1 2 0
             (ex_shared, init_state ex_args ex_ctx))) \<le> 1"
proof -
  have h: "0 \<le> T (init_state ex_args ex_ctx)" by (simp add: init_state_def)
  show ?thesis
    using transmittance_non_increasing [OF h, where A = ex_args and ctx = ex_ctx and cd = 1
        and sh = ex_shared and px = "1 / 2" and py = "1 / 2" and rs = 0 and re = 2 and blk = 1
        and nb = 2 and b = 0]
    by (simp add: init_state_def)
qed

lemma final_state_T_gt: "1 / 10000 < T (final_state cd A ctx sh)"
  unfolding final_state_def Let_def
  by (rule tile_loop_T_gt) (simp add: init_state_def)

text \<open>
  C10. The transmittance stays strictly above \<open>1e-4\<close>: at the start, after every record
  when it held before, and at the end, so that the coverage stored is strictly below
  \<open>1 - 1e-4\<close>. The record that would take it to \<open>1e-4\<close> or below only sets the done flag:
  transmittance, colour and last-contributor index are left as they were.
\<close>

theorem transmittance_above_cutoff:
  fixes sh :: shared_batch and t bs cd :: nat and px py :: real
    and A :: fwd_args and st :: pix_state
  defines "sigma \<equiv> gauss_sigma (conic_batch sh t) (xy_opacity_batch sh t) px py"
  defines "alpha \<equiv> gauss_alpha (z (xy_opacity_batch sh t)) sigma"
  shows "1 / 10000 < T (init_state A ctx)
       \<and> (1 / 10000 < T st \<longrightarrow> 1 / 10000 < T (composite_slot cd A sh px py bs t st))
       \<and> (\<not> skipped sigma alpha \<and> T st * (1 - alpha) \<le> 1 / 10000
            \<longrightarrow> composite_slot cd A sh px py bs t st = st\<lparr>is_done := True\<rparr>)
       \<and> 1 / 10000 < T (final_state cd A ctx sh0)
       \<and> (\<forall>ps. rasterize_to_pixels_fwd_kernel cd A ctx sh0 = Some ps
            \<longrightarrow> render_alphas ps < 1 - 1 / 10000)"
proof -
  have "\<forall>ps. rasterize_to_pixels_fwd_kernel cd A ctx sh0 = Some ps
            \<longrightarrow> render_alphas ps < 1 - 1 / 10000"
    using final_state_T_gt [of cd A ctx sh0]
    by (auto simp: rasterize_to_pixels_fwd_kernel_def Let_def split: if_splits)
  then show ?thesis
    using final_state_T_gt [of cd A ctx sh0] composite_slot_T_gt [of st cd A sh px py bs t]
      composite_slot_cutoff [of sh t px py st cd A bs]
    by (simp add: init_state_def sigma_def alpha_def)
qed

lemma batch_loop_all_skipped:
  "(\<And>t'. t \<le> t' \<Longrightarrow> t' < n \<Longrightarrow>
      skipped (gauss_sigma (conic_batch sh t') (xy_opacity_batch sh t') px py)
        (gauss_alpha (z (xy_opacity_batch sh t'))
           (gauss_sigma (conic_batch sh t') (xy_opacity_batch sh t') px py)))
   \<Longrightarrow> batch_loop cd A sh px py bs n t st = st"
proof (induction cd A sh px py bs n t st rule: batch_loop.induct)
  case (1 cd A sh px py bs n t st)
  show ?case
  proof (cases "t < n \<and> \<not> is_done st")
    case True
    have "composite_slot cd A sh px py bs t st = st"
      using 1(2) [of t] True by (intro composite_slot_skip) simp
    moreover have "batch_loop cd A sh px py bs n (t + 1) st = st"
      using 1(1) True 1(2) calculation by simp
    ultimately show ?thesis using True by (simp add: batch_loop_step)
  next
    case False
    then show ?thesis by (simp add: batch_loop_stop)
  qed
qed

lemma batches_cover:
  fixes b blk len :: nat
  assumes "b < (len + blk - 1) div blk"
  shows "blk * b < len"
proof -
  have pos: "0 < blk" using assms by (cases "blk = 0") auto
  have "Suc b \<le> (len + blk - 1) div blk" using assms by simp
  then have "Suc b * blk \<le> len + blk - 1"
    using pos by (simp add: less_eq_div_iff_mult_less_eq)
  then show ?thesis using pos by (simp add: mult.commute)
qed

lemma load_batch_slot:
  assumes "t < blk" and "u32 (int bstart + int t) < u32 re"
  shows "conic_batch (load_batch A bstart re blk sh) t
           = conics A (flatten_ids A (int (u32 (int bstart + int t))))"
    and "xy_opacity_batch (load_batch A bstart re blk sh) t
           = \<lparr>x = x (means2d A (flatten_ids A (int (u32 (int bstart + int t))))),
              y = y (means2d A (flatten_ids A (int (u32 (int bstart + int t))))),
              z = opacities A (flatten_ids A (int (u32 (int bstart + int t))))\<rparr>"
  using assms by (simp_all add: load_batch_def Let_def)

lemma tile_loop_all_skipped:
  assumes "0 \<le> rs" and "rs \<le> re" and "re < 2 ^ 31" and "blk < 2 ^ 31"
    and "\<And>idx. rs \<le> idx \<Longrightarrow> idx < re \<Longrightarrow> record_skipped A px py idx"
    and "nb = u32 (re - rs + int blk - 1) div blk"
  shows "snd (tile_loop cd A ctx px py rs re blk nb b (sh, st)) = st"
  using assms
proof (induction cd A ctx px py rs re blk nb b "(sh, st)" arbitrary: sh rule: tile_loop.induct)
  case (1 cd A ctx px py rs re blk nb b sh)
  note rs0 = "1.prems"(1) and rsre = "1.prems"(2) and re31 = "1.prems"(3)
    and blk31 = "1.prems"(4) and skip = "1.prems"(5) and nb = "1.prems"(6)
  show ?case
  proof (cases "b < nb \<and> \<not> (is_done st \<and> others_done ctx b)")
    case True
    define len where "len = nat (re - rs)"
    have lenint: "int len = re - rs" using rsre by (simp add: len_def)
    have blkpos: "0 < blk" using True nb by (cases "blk = 0") auto
    have "u32 (re - rs + int blk - 1) = len + blk - 1"
    proof -
      have "re - rs + int blk - 1 = int (len + blk - 1)"
        using lenint blkpos by (simp add: of_nat_diff)
      moreover have "len + blk - 1 < 2 ^ 32"
        using rs0 re31 blk31 lenint by (simp add: len_def) 
      ultimately show ?thesis by (simp add: u32_nat)
    qed
    then have "b < (len + blk - 1) div blk" using True nb by simp
    then have cover: "blk * b < len" by (rule batches_cover)
    let ?bs = "u32 (rs + int blk * int b)"
    have bs_eq: "int ?bs = rs + int blk * int b"
    proof (rule u32_id)
      show "0 \<le> rs + int blk * int b" using rs0 by simp
      have "int blk * int b < int len" using cover by (metis of_nat_less_iff of_nat_mult)
      then show "rs + int blk * int b < 2 ^ 32" using lenint re31 by simp
    qed
    have bs_lt: "int ?bs < re"
    proof -
      have "int blk * int b < int len" using cover by (metis of_nat_less_iff of_nat_mult)
      then show ?thesis using bs_eq lenint by simp
    qed
    have bs_ge: "rs \<le> int ?bs" using bs_eq by simp
    let ?sh = "load_batch A ?bs re blk sh"
    let ?n = "min blk (u32 (re - int ?bs))"
    have n_le: "int ?n \<le> re - int ?bs"
    proof -
      have "int (u32 (re - int ?bs)) = re - int ?bs"
        using bs_lt bs_ge rs0 re31 by (intro u32_id) auto
      then show ?thesis by linarith
    qed
    have re_u: "int (u32 re) = re" using rs0 rsre re31 by (intro u32_id) auto
    have inner: "batch_loop cd A ?sh px py ?bs ?n 0 st = st"
    proof (rule batch_loop_all_skipped)
      fix t' :: nat
      assume t': "t' < ?n"
      then have t_blk: "t' < blk" by simp
      have idx_lt: "int ?bs + int t' < re" using t' n_le by linarith
      have idx_u: "int (u32 (int ?bs + int t')) = int ?bs + int t'"
        using idx_lt bs_ge rs0 re31 by (intro u32_id) auto
      have hit: "u32 (int ?bs + int t') < u32 re"
        using idx_u re_u idx_lt by linarith
      have "record_skipped A px py (int ?bs + int t')"
        using skip [of "int ?bs + int t'"] bs_ge idx_lt by simp
      then show "skipped (gauss_sigma (conic_batch ?sh t') (xy_opacity_batch ?sh t') px py)
        (gauss_alpha (z (xy_opacity_batch ?sh t'))
           (gauss_sigma (conic_batch ?sh t') (xy_opacity_batch ?sh t') px py))"
        by (simp add: load_batch_slot [OF t_blk hit] idx_u record_skipped_def Let_def)
    qed
    have "snd (tile_loop cd A ctx px py rs re blk nb (b + 1) (?sh, st)) = st"
      using "1.hyps" True inner rs0 rsre re31 blk31 skip nb by simp
    then show ?thesis using True inner by (simp add: tile_loop_step)
  next
    case False
    then show ?thesis by (subst tile_loop_stop) auto
  qed
qed

text \<open>
  C5. For a pixel inside the image whose tile range holds only records that are skipped
  at that pixel (or no record at all), the coverage stored is 0 and the colour stored is
  the camera's background when one is given, and zero otherwise. The range is the one
  the kernel reads from \<open>tile_offsets\<close>, non-negative, ordered and below \<open>2\<^sup>3\<^sup>1\<close>.
\<close>
theorem no_contribution_gives_background:
  assumes "inside A ctx"
    and "0 \<le> range_start A ctx" and "range_start A ctx \<le> range_end A ctx"
    and "range_end A ctx < 2 ^ 31" and "block_size ctx < 2 ^ 31"
    and "\<forall>idx. range_start A ctx \<le> idx \<and> idx < range_end A ctx
           \<longrightarrow> record_skipped A (real (pixel_j A ctx) + 0.5) (real (pixel_i A ctx) + 0.5) idx"
  shows "\<exists>ps. rasterize_to_pixels_fwd_kernel COLOR_DIM A ctx sh = Some ps
           \<and> render_alphas ps = 0
           \<and> render_colors ps
               = map (\<lambda>k. case backgrounds A of
                              None \<Rightarrow> 0
                            | Some bgs \<Rightarrow> bgs (int (u32 (camera_id ctx * int COLOR_DIM)) + int k))
                     [0..<COLOR_DIM]"
proof -
  have "final_state COLOR_DIM A ctx sh = init_state A ctx"
    unfolding final_state_def Let_def
    by (rule tile_loop_all_skipped [OF assms(2-5)]) (use assms(6) in \<open>simp_all add: num_batches_def\<close>)
  then show ?thesis
    using assms(1)
    by (cases "backgrounds A")
       (simp_all add: rasterize_to_pixels_fwd_kernel_def Let_def init_state_def)
qed

lemma ex_clear_range:
  "range_start ex_clear ex_ctx = 0" "range_end ex_clear ex_ctx = 2" "block_size ex_ctx = 1"
  by (simp_all add: range_start_def range_end_def block_size_def tile_base_def camera_id_def
      tile_id_def ex_clear_def ex_args_def ex_ctx_def u32_def s32_def)

theorem no_contribution_gives_background_witness:
  "\<exists>ps. rasterize_to_pixels_fwd_kernel 1 ex_clear ex_ctx ex_shared = Some ps
       \<and> render_alphas ps = 0 \<and> render_colors ps = [1 / 4]"
proof -
  have h1: "inside ex_clear ex_ctx"
    by (simp add: inside_def pixel_i_def pixel_j_def ex_clear_def ex_args_def ex_ctx_def u32_def)
  have h2: "0 \<le> range_start ex_clear ex_ctx" by (simp add: ex_clear_range)
  have h3: "range_start ex_clear ex_ctx \<le> range_end ex_clear ex_ctx" by (simp add: ex_clear_range)
  have h4: "range_end ex_clear ex_ctx < 2 ^ 31" by (simp add: ex_clear_range)
  have h5: "block_size ex_ctx < 2 ^ 31" by (simp add: ex_clear_range)
  have h6: "\<forall>idx. range_start ex_clear ex_ctx \<le> idx \<and> idx < range_end ex_clear ex_ctx
           \<longrightarrow> record_skipped ex_clear (real (pixel_j ex_clear ex_ctx) + 0.5)
                 (real (pixel_i ex_clear ex_ctx) + 0.5) idx"
    by (simp add: record_skipped_def Let_def skipped_def gauss_alpha_def ex_clear_def ex_args_def)
  show ?thesis
    using no_contribution_gives_background [OF h1 h2 h3 h4 h5 h6, of 1 ex_shared]
    by (simp add: ex_clear_def ex_args_def)
qed

theorem transmittance_above_cutoff_witness:
  "1 / 10000 < T ex_first
   \<and> composite_slot 1 ex_args ex_batch (1 / 2) (1 / 2) 1 0 ex_first = ex_first\<lparr>is_done := True\<rparr>
   \<and> 1 / 10000 < T (final_state 1 ex_args ex_ctx ex_shared)"
  using transmittance_above_cutoff [where A = ex_args and ctx = ex_ctx and cd = 1
      and sh = "load_batch ex_args 0 2 1 ex_shared" and px = "1 / 2" and py = "1 / 2"
      and bs = 0 and t = 0 and st = "init_state ex_args ex_ctx" and ?sh0.0 = ex_shared]
    transmittance_above_cutoff [where A = ex_args and ctx = ex_ctx and cd = 1
      and sh = ex_batch and px = "1 / 2" and py = "1 / 2"
      and bs = 1 and t = 0 and st = ex_first and ?sh0.0 = ex_shared]
  by (simp add: ex_first_def [symmetric] init_state_def ex_batch_slot ex_first_eq
      gauss_sigma_def gauss_alpha_def skipped_def)

text \<open>
  The example pixel, run through the whole kernel: the first record is blended, the second
  reaches the cut-off, and the thread stores coverage 0.999 with the first record as last
  contributor.
\<close>

lemma ex_range:
  "range_start ex_args ex_ctx = 0" "range_end ex_args ex_ctx = 2" "block_size ex_ctx = 1"
  "num_batches ex_args ex_ctx = 2"
  by (simp_all add: num_batches_def range_start_def range_end_def block_size_def tile_base_def
      camera_id_def tile_id_def ex_args_def ex_ctx_def u32_def s32_def)

lemma ex_pixel: "pixel_i ex_args ex_ctx = 0" "pixel_j ex_args ex_ctx = 0"
  by (simp_all add: pixel_i_def pixel_j_def ex_args_def ex_ctx_def u32_def)

lemma ex_init: "\<not> is_done (init_state ex_args ex_ctx)"
  using ex_inside by (simp add: init_state_def)

lemma ex_second: "composite_slot 1 ex_args ex_batch (1 / 2) (1 / 2) 1 0 ex_first = ex_first\<lparr>is_done := True\<rparr>"
  by (simp add: composite_slot_def Let_def ex_batch_slot ex_first_eq gauss_sigma_def
      gauss_alpha_def skipped_def)

lemma ex_final: "final_state 1 ex_args ex_ctx ex_shared = ex_first\<lparr>is_done := True\<rparr>"
proof -
  let ?sh0 = "load_batch ex_args 0 2 1 ex_shared"
  have b0: "batch_loop 1 ex_args ?sh0 (1 / 2) (1 / 2) 0 1 0 (init_state ex_args ex_ctx) = ex_first"
    using ex_init by (simp add: batch_loop_step batch_loop_stop ex_first_def)
  have sh1: "load_batch ex_args 1 2 1 ?sh0 = ex_batch"
    by (simp add: ex_batch_def load_batch_def Let_def ex_shared_def u32_def fun_eq_iff)
  have b1: "batch_loop 1 ex_args ex_batch (1 / 2) (1 / 2) 1 1 0 ex_first = ex_first\<lparr>is_done := True\<rparr>"
    using ex_second by (simp add: batch_loop_step batch_loop_stop ex_first_eq)
  have "tile_loop 1 ex_args ex_ctx (1 / 2) (1 / 2) 0 2 1 2 0 (ex_shared, init_state ex_args ex_ctx)
        = tile_loop 1 ex_args ex_ctx (1 / 2) (1 / 2) 0 2 1 2 (Suc 0) (?sh0, ex_first)"
    using ex_init b0 by (simp add: tile_loop_step u32_def)
  also have "\<dots> = tile_loop 1 ex_args ex_ctx (1 / 2) (1 / 2) 0 2 1 2 (Suc (Suc 0))
                      (ex_batch, ex_first\<lparr>is_done := True\<rparr>)"
    using b1 sh1 by (simp add: tile_loop_step u32_def ex_first_eq)
  also have "\<dots> = (ex_batch, ex_first\<lparr>is_done := True\<rparr>)"
    by (rule tile_loop_stop) simp
  finally show ?thesis
    using ex_range ex_pixel by (simp add: final_state_def Let_def)
qed

lemma ex_kernel:
  "rasterize_to_pixels_fwd_kernel 1 ex_args ex_ctx ex_shared
   = Some \<lparr>out_camera_id = 0, out_pix_id = 0, render_alphas = 999 / 1000,
           render_colors = [999 / 1000], last_ids = 0\<rparr>"
proof -
  have "backgrounds ex_args = None" "image_width ex_args = 1" by (simp_all add: ex_args_def)
  moreover have "camera_id ex_ctx = 0" by (simp add: camera_id_def s32_def ex_ctx_def)
  ultimately show ?thesis
    using ex_inside ex_final
    by (simp add: rasterize_to_pixels_fwd_kernel_def Let_def s32_def ex_first_eq ex_pixel)
qed

section \<open>Properties of the backward kernel\<close>

lemma atomicAdd_list_eq: "atomicAdd_list m base vs a = m a + add_at base vs a"
proof (induction vs arbitrary: m base)
  case Nil
  then show ?case by (simp add: add_at_def)
next
  case (Cons v vs)
  show ?case
  proof (cases "a = base")
    case True
    show ?thesis
      unfolding atomicAdd_list.simps by (subst Cons.IH) (simp add: add_at_def True)
  next
    case False
    note ne = this
    have "add_at (base + 1) vs a = add_at base (v # vs) a"
    proof (cases "base < a")
      case True
      then have "nat (a - base) = Suc (nat (a - (base + 1)))" by simp
      then show ?thesis using True by (auto simp: add_at_def)
    next
      case False
      then show ?thesis using ne by (auto simp: add_at_def)
    qed
    then show ?thesis using ne by (simp add: Cons.IH)
  qed
qed

lemma store_list_eq:
  "store_list m base vs a
     = (if base \<le> a \<and> a < base + int (length vs) then vs ! nat (a - base) else m a)"
proof (induction vs arbitrary: m base)
  case Nil
  then show ?case by simp
next
  case (Cons v vs)
  show ?case
  proof (cases "a = base")
    case True
    show ?thesis
      unfolding store_list.simps by (subst Cons.IH) (simp add: True)
  next
    case False
    note ne = this
    show ?thesis
    proof (cases "base < a")
      case True
      then have "nat (a - base) = Suc (nat (a - (base + 1)))" by simp
      then show ?thesis using True ne by (auto simp: Cons.IH)
    next
      case False
      then show ?thesis using ne by (auto simp: Cons.IH)
    qed
  qed
qed

lemma fold_atomicAdds:
  "fold (\<lambda>p ptr. if c p then atomicAdds ptr (b p) (v p) else ptr) ps (Some m)
     = Some (\<lambda>a. m a + (\<Sum>p\<leftarrow>ps. if c p then add_at (b p) (v p) a else 0))"
proof (induction ps arbitrary: m)
  case Nil
  then show ?case by simp
next
  case (Cons p ps)
  show ?case
  proof (cases "c p")
    case True
    have "fold (\<lambda>p ptr. if c p then atomicAdds ptr (b p) (v p) else ptr) (p # ps) (Some m)
          = fold (\<lambda>p ptr. if c p then atomicAdds ptr (b p) (v p) else ptr) ps
              (Some (atomicAdd_list m (b p) (v p)))"
      using True by (simp add: atomicAdds_def)
    also have "\<dots> = Some (\<lambda>a. atomicAdd_list m (b p) (v p) a
                 + (\<Sum>p\<leftarrow>ps. if c p then add_at (b p) (v p) a else 0))"
      by (rule Cons.IH)
    finally show ?thesis using True by (simp add: atomicAdd_list_eq add.assoc)
  next
    case False
    then show ?thesis by (simp add: Cons.IH)
  qed
qed

lemma fold_atomicAdds_None:
  "fold (\<lambda>p ptr. if c p then atomicAdds ptr (b p) (v p) else ptr) ps None = None"
  by (induction ps) (simp_all add: atomicAdds_def)

lemma leader_iff:
  assumes "p < length ws"
  shows "thread_rank (labeled_partition label ws p) p = 0
         \<longleftrightarrow> (\<forall>q<p. label (int (ws ! q)) \<noteq> label (int (ws ! p)))"
  using assms by (auto simp: thread_rank_def labeled_partition_def filter_empty_conv)

lemma group_sum:
  "warpSum val ws (labeled_partition label ws p)
     = (\<Sum>idx\<leftarrow>filter (\<lambda>idx. label (int idx) = label (int (ws ! p))) ws. val idx)"
proof -
  have "map (\<lambda>q. val (ws ! q)) (filter (\<lambda>q. label (int (ws ! q)) = g) [0..<length ws])
        = map val (filter (\<lambda>idx. label (int idx) = g) ws)" for g
  proof -
    have "map val (filter (\<lambda>idx. label (int idx) = g) (map ((!) ws) [0..<length ws]))
          = map (\<lambda>q. val (ws ! q)) (filter (\<lambda>q. label (int (ws ! q)) = g) [0..<length ws])"
      by (simp add: filter_map comp_def)
    then show ?thesis by (simp add: map_nth)
  qed
  then show ?thesis by (simp add: warpSum_def labeled_partition_def)
qed

lemma leader_count:
  "(\<Sum>p\<leftarrow>[0..<length ws].
       if (\<forall>q<p. label (int (ws ! q)) \<noteq> label (int (ws ! p))) \<and> label (int (ws ! p)) = g
       then c else 0)
   = (if g \<in> (\<lambda>idx. label (int idx)) ` set ws then c else (0::real))"
proof (induction ws rule: rev_induct)
  case Nil
  then show ?case by simp
next
  case (snoc a ws)
  have old: "(\<Sum>p\<leftarrow>[0..<length ws].
       if (\<forall>q<p. label (int ((ws @ [a]) ! q)) \<noteq> label (int ((ws @ [a]) ! p)))
          \<and> label (int ((ws @ [a]) ! p)) = g then c else 0)
     = (\<Sum>p\<leftarrow>[0..<length ws].
       if (\<forall>q<p. label (int (ws ! q)) \<noteq> label (int (ws ! p))) \<and> label (int (ws ! p)) = g
       then c else 0)"
    by (intro arg_cong [where f = sum_list] map_cong) (auto simp: nth_append)
  have new: "(\<forall>q<length ws. label (int ((ws @ [a]) ! q)) \<noteq> label (int a))
             \<longleftrightarrow> label (int a) \<notin> (\<lambda>idx. label (int idx)) ` set ws"
  proof
    assume l: "\<forall>q<length ws. label (int ((ws @ [a]) ! q)) \<noteq> label (int a)"
    show "label (int a) \<notin> (\<lambda>idx. label (int idx)) ` set ws"
    proof
      assume "label (int a) \<in> (\<lambda>idx. label (int idx)) ` set ws"
      then obtain q where "q < length ws" "label (int (ws ! q)) = label (int a)"
        by (auto simp: in_set_conv_nth)
      with l show False by (auto simp: nth_append)
    qed
  next
    assume r: "label (int a) \<notin> (\<lambda>idx. label (int idx)) ` set ws"
    show "\<forall>q<length ws. label (int ((ws @ [a]) ! q)) \<noteq> label (int a)"
    proof (intro allI impI)
      fix q assume "q < length ws"
      then have "ws ! q \<in> set ws" by simp
      with r have "label (int (ws ! q)) \<noteq> label (int a)" by (metis imageI)
      then show "label (int ((ws @ [a]) ! q)) \<noteq> label (int a)"
        using \<open>q < length ws\<close> by (simp add: nth_append)
    qed
  qed
  show ?case
    using snoc.IH by (auto simp: old new)
qed

lemma stride_slot:
  fixes l g s k W :: int
  assumes "0 \<le> k" and "k < W" and "W \<le> s"
  shows "l * s \<le> g * s + k \<and> g * s + k < l * s + W \<longleftrightarrow> l = g"
proof
  assume a: "l * s \<le> g * s + k \<and> g * s + k < l * s + W"
  have s0: "0 \<le> s" using assms by linarith
  show "l = g"
  proof (rule ccontr)
    assume "l \<noteq> g"
    then consider "l < g" | "g < l" by linarith
    then show False
    proof cases
      case 1
      then have "(l + 1) * s \<le> g * s" using s0 by (intro mult_right_mono) auto
      then have "l * s + s \<le> g * s" by (simp add: algebra_simps)
      with a assms show False by linarith
    next
      case 2
      then have "(g + 1) * s \<le> l * s" using s0 by (intro mult_right_mono) auto
      then have "g * s + s \<le> l * s" by (simp add: algebra_simps)
      with a assms show False by linarith
    qed
  qed
next
  assume "l = g"
  then show "l * s \<le> g * s + k \<and> g * s + k < l * s + W" using assms by simp
qed

lemma dense_warp:
  assumes "k < W" and "int W \<le> stride"
  shows "\<exists>m'. fold (dense_step label stride vals W ws) [0..<length ws] (Some m) = Some m'
           \<and> m' (g * stride + int k)
               = m (g * stride + int k)
                 + (\<Sum>idx\<leftarrow>filter (\<lambda>idx. label (int idx) = g) ws. vals idx ! k)"
proof -
  let ?c = "\<lambda>p. thread_rank (labeled_partition label ws p) p = 0"
  let ?b = "\<lambda>p. label (int (ws ! p)) * stride"
  let ?v = "\<lambda>p. map (\<lambda>k. warpSum (\<lambda>i. vals i ! k) ws (labeled_partition label ws p)) [0..<W]"
  let ?S = "\<Sum>idx\<leftarrow>filter (\<lambda>idx. label (int idx) = g) ws. vals idx ! k"
  have step: "dense_step label stride vals W ws
              = (\<lambda>p ptr. if ?c p then atomicAdds ptr (?b p) (?v p) else ptr)"
    by (simp add: dense_step_def fun_eq_iff)
  have tm: "(if ?c p then add_at (?b p) (?v p) (g * stride + int k) else 0)
              = (if (\<forall>q<p. label (int (ws ! q)) \<noteq> label (int (ws ! p))) \<and> label (int (ws ! p)) = g
                 then ?S else 0)"
    if "p \<in> set [0..<length ws]" for p
  proof -
    have p: "p < length ws" using that by simp
    have slot: "?b p \<le> g * stride + int k \<and> g * stride + int k < ?b p + int W
                \<longleftrightarrow> label (int (ws ! p)) = g"
      using assms by (intro stride_slot) auto
    show ?thesis
    proof (cases "label (int (ws ! p)) = g")
      case True
      have "add_at (?b p) (?v p) (g * stride + int k) = ?S"
        using True assms by (simp add: add_at_def group_sum)
      then show ?thesis using True leader_iff [OF p, of label] by auto
    next
      case False
      then have "add_at (?b p) (?v p) (g * stride + int k) = 0"
        using slot by (auto simp: add_at_def)
      then show ?thesis using False by simp
    qed
  qed
  have "(\<Sum>p\<leftarrow>[0..<length ws]. if ?c p then add_at (?b p) (?v p) (g * stride + int k) else 0)
        = (\<Sum>p\<leftarrow>[0..<length ws].
             if (\<forall>q<p. label (int (ws ! q)) \<noteq> label (int (ws ! p))) \<and> label (int (ws ! p)) = g
             then ?S else 0)"
    by (intro arg_cong [where f = sum_list] map_cong refl tm)
  also have "\<dots> = (if g \<in> (\<lambda>idx. label (int idx)) ` set ws then ?S else 0)"
    by (rule leader_count)
  also have "\<dots> = ?S"
  proof (cases "g \<in> (\<lambda>idx. label (int idx)) ` set ws")
    case True
    then show ?thesis by simp
  next
    case False
    then have "filter (\<lambda>idx. label (int idx) = g) ws = []"
      by (auto simp: filter_empty_conv)
    then show ?thesis by simp
  qed
  finally show ?thesis
    unfolding step by (subst fold_atomicAdds) simp
qed

lemma dense_warp_None:
  "fold (dense_step label stride vals W ws) ps None = None"
  by (induction ps) (simp_all add: dense_step_def atomicAdds_def)

lemma dense_grid:
  assumes "k < W" and "int W \<le> stride"
  shows "\<exists>m'. fold (\<lambda>ws. fold (dense_step label stride vals W ws) [0..<length ws]) wss (Some m)
                 = Some m'
           \<and> m' (g * stride + int k)
               = m (g * stride + int k)
                 + (\<Sum>idx\<leftarrow>filter (\<lambda>idx. label (int idx) = g) (concat wss). vals idx ! k)"
proof (induction wss arbitrary: m)
  case Nil
  then show ?case by simp
next
  case (Cons ws wss)
  from dense_warp [OF assms, of label vals ws m g]
  obtain m1 where m1: "fold (dense_step label stride vals W ws) [0..<length ws] (Some m) = Some m1"
    "m1 (g * stride + int k) = m (g * stride + int k)
       + (\<Sum>idx\<leftarrow>filter (\<lambda>idx. label (int idx) = g) ws. vals idx ! k)"
    by blast
  from Cons.IH [of m1]
  obtain m2 where m2:
    "fold (\<lambda>ws. fold (dense_step label stride vals W ws) [0..<length ws]) wss (Some m1) = Some m2"
    "m2 (g * stride + int k) = m1 (g * stride + int k)
       + (\<Sum>idx\<leftarrow>filter (\<lambda>idx. label (int idx) = g) (concat wss). vals idx ! k)"
    by blast
  show ?case using m1 m2 by simp
qed

lemma sparse_threads:
  assumes "\<forall>idx\<in>set idxs. length (vals idx) = W \<and> idx < n" and "W * n \<le> 2 ^ 32"
  shows "\<exists>m'. fold (sparse_step vals W) idxs (Some m) = Some m'
           \<and> (\<forall>idx\<in>set idxs. \<forall>k<W. m' (int (idx * W) + int k) = vals idx ! k)"
  using assms(1)
proof (induction idxs rule: rev_induct)
  case Nil
  then show ?case by simp
next
  case (snoc i idxs)
  then obtain m1 where m1: "fold (sparse_step vals W) idxs (Some m) = Some m1"
    "\<forall>idx\<in>set idxs. \<forall>k<W. m1 (int (idx * W) + int k) = vals idx ! k"
    by auto
  have len: "length (vals i) = W" and i_n: "i < n" using snoc.prems by auto
  have "i * W < 2 ^ 32 \<or> W = 0"
  proof (cases "W = 0")
    case False
    then have "i * W < n * W" using i_n by simp
    also have "n * W \<le> 2 ^ 32" using assms(2) by (simp add: mult.commute)
    finally show ?thesis by simp
  qed simp
  then have base: "int (u32 (int i * int W)) = int (i * W)"
    by (cases "W = 0") (simp_all add: u32_def nat_mod_distrib flip: of_nat_mult)
  let ?m2 = "store_list m1 (int (i * W)) (vals i)"
  have fold2: "fold (sparse_step vals W) (idxs @ [i]) (Some m) = Some ?m2"
    using m1(1) base by (simp add: sparse_step_def stores_def)
  have "?m2 (int (idx * W) + int k) = vals idx ! k" if "idx \<in> set (idxs @ [i])" "k < W" for idx k
  proof (cases "idx = i")
    case True
    then show ?thesis using that len by (simp add: store_list_eq)
  next
    case False
    have "\<not> (int i * int W \<le> int idx * int W + int k \<and> int idx * int W + int k < int i * int W + int W)"
      using stride_slot [of "int k" "int W" "int W" "int i" "int idx"] that False by simp
    then have "?m2 (int (idx * W) + int k) = m1 (int (idx * W) + int k)"
      using len by (auto simp: store_list_eq)
    then show ?thesis using m1(2) that False by simp
  qed
  then show ?case using fold2 by blast
qed

lemma warpSum_add:
  "warpSum (\<lambda>i. f i + h i) ws grp = warpSum f ws grp + warpSum h ws grp"
  by (simp add: warpSum_def sum_list_addf)

lemma upt_3: "[0..<3] = [0, 1, 2]" and upt_4: "[0..<4] = [0, 1, 2, 3]"
  and upt_6: "[0..<6] = [0, 1, 2, 3, 4, 5]"
  and upt_12: "[0..<12] = [0, 1, 2, 3, 4, 5, 6, 7, 8, 9, 10, 11]"
  by (simp_all add: upt_rec)

lemma step_None_iff:
  "sparse_step vals W idx ptr = None \<longleftrightarrow> ptr = None"
  "dense_step label stride vals W ws p ptr = None \<longleftrightarrow> ptr = None"
  by (simp_all add: sparse_step_def dense_step_def stores_def atomicAdds_def)

lemma write_viewmats_fields:
  "v_means (write_viewmats A ws p out) = v_means out"
  "v_covars (write_viewmats A ws p out) = v_covars out"
  "v_quats (write_viewmats A ws p out) = v_quats out"
  "v_scales (write_viewmats A ws p out) = v_scales out"
  "v_viewmats (write_viewmats A ws p out)
     = dense_step (camera_ids A) 16 (viewmat_vals A) 12 ws p (v_viewmats out)"
  by (simp_all add: write_viewmats_def Let_def dense_step_def viewmat_vals_def viewmat_out_def
      upt_12 atomicAdds_def)

lemma write_sparse_fields:
  "v_means (write_sparse A idx out) = sparse_step (mean_vals A) 3 idx (v_means out)"
  "v_covars (write_sparse A idx out) = sparse_step (covar_vals A) 6 idx (v_covars out)"
  "v_quats (write_sparse A idx out)
     = (if v_covars out \<noteq> None then v_quats out
        else sparse_step (quat_vals A) 4 idx (v_quats out))"
  "v_scales (write_sparse A idx out)
     = (if v_covars out \<noteq> None then v_scales out
        else sparse_step (scale_vals A) 3 idx (v_scales out))"
  "v_viewmats (write_sparse A idx out) = v_viewmats out"
  by (auto simp: write_sparse_def Let_def sparse_step_def mean_vals_def covar_vals_def
      quat_vals_def scale_vals_def stores_def)

lemma write_dense_fields:
  "v_means (write_dense A ws p out)
     = dense_step (gaussian_ids A) 3 (mean_vals A) 3 ws p (v_means out)"
  "v_covars (write_dense A ws p out)
     = dense_step (gaussian_ids A) 6 (covar_vals A) 6 ws p (v_covars out)"
  "v_quats (write_dense A ws p out)
     = (if v_covars out \<noteq> None then v_quats out
        else dense_step (gaussian_ids A) 4 (quat_vals A) 4 ws p (v_quats out))"
  "v_scales (write_dense A ws p out)
     = (if v_covars out \<noteq> None then v_scales out
        else dense_step (gaussian_ids A) 3 (scale_vals A) 3 ws p (v_scales out))"
  "v_viewmats (write_dense A ws p out) = v_viewmats out"
  by (auto simp: write_dense_def Let_def dense_step_def mean_vals_def covar_vals_def
      quat_vals_def scale_vals_def covar_out_def atomicAdds_def upt_3 upt_4 upt_6 warpSum_add)

lemma fold_field:
  assumes "\<And>p out. Inv out \<Longrightarrow> fld (step p out) = F p (fld out)"
    and "\<And>p out. Inv out \<Longrightarrow> Inv (step p out)"
    and "Inv out"
  shows "fld (fold step ps out) = fold F ps (fld out) \<and> Inv (fold step ps out)"
  using assms(3)
proof (induction ps arbitrary: out)
  case Nil
  then show ?case by simp
next
  case (Cons p ps)
  have "Inv (step p out)" using Cons.prems by (rule assms(2))
  from Cons.IH [OF this] show ?case using Cons.prems by (simp add: assms(1))
qed

lemma fold_fold_concat: "fold (fold f) wss = fold f (concat wss)"
  by (induction wss) (simp_all add: fun_eq_iff)

lemma fold_lanes: "fold (\<lambda>p. f (ws ! p)) [0..<length ws] = fold f ws"
proof -
  have "fold f (map ((!) ws) [0..<length ws]) = fold (\<lambda>p. f (ws ! p)) [0..<length ws]"
    by (simp add: fold_map comp_def)
  then show ?thesis by (simp add: map_nth)
qed

lemma bwd_thread_fields:
  "v_means (bwd_thread A ws p out) = prim_step A (mean_vals A) 3 ws p (v_means out)"
  "v_covars (bwd_thread A ws p out) = prim_step A (covar_vals A) 6 ws p (v_covars out)"
  "v_covars out = None \<Longrightarrow>
     v_quats (bwd_thread A ws p out) = prim_step A (quat_vals A) 4 ws p (v_quats out)"
  "v_covars out = None \<Longrightarrow>
     v_scales (bwd_thread A ws p out) = prim_step A (scale_vals A) 3 ws p (v_scales out)"
  "v_covars out \<noteq> None \<Longrightarrow> v_quats (bwd_thread A ws p out) = v_quats out"
  "v_covars out \<noteq> None \<Longrightarrow> v_scales (bwd_thread A ws p out) = v_scales out"
  "v_viewmats (bwd_thread A ws p out)
     = dense_step (camera_ids A) 16 (viewmat_vals A) 12 ws p (v_viewmats out)"
  "v_covars (bwd_thread A ws p out) = None \<longleftrightarrow> v_covars out = None"
  by (simp_all add: bwd_thread_def prim_step_def write_viewmats_fields write_sparse_fields
      write_dense_fields step_None_iff)

lemma kernel_field:
  assumes thread: "\<And>ws p out. Inv out \<Longrightarrow> fld (bwd_thread A ws p out) = F ws p (fld out)"
    and inv: "\<And>ws p out. Inv out \<Longrightarrow> Inv (bwd_thread A ws p out)"
    and "Inv out"
  shows "fld (fully_fused_projection_packed_bwd_kernel A NT nb out)
         = fold (\<lambda>ws. fold (F ws) [0..<length ws]) (grid_warps NT nb (nnz A)) (fld out)"
proof -
  have warp: "fld (bwd_warp A ws out) = fold (F ws) [0..<length ws] (fld out)
              \<and> Inv (bwd_warp A ws out)" if "Inv out" for ws out
    unfolding bwd_warp_def
    by (rule fold_field [where Inv = Inv]) (use that in \<open>simp_all add: thread inv\<close>)
  have "fld (fold (bwd_warp A) (grid_warps NT nb (nnz A)) out)
        = fold (\<lambda>ws. fold (F ws) [0..<length ws]) (grid_warps NT nb (nnz A)) (fld out)
          \<and> Inv (fold (bwd_warp A) (grid_warps NT nb (nnz A)) out)"
    by (rule fold_field [where Inv = Inv]) (use assms(3) warp in \<open>simp_all\<close>)
  then show ?thesis by (simp add: fully_fused_projection_packed_bwd_kernel_def)
qed

lemma prim_dense:
  assumes "\<not> sparse_grad A" and "k < W"
  shows "\<exists>m'. fold (\<lambda>ws. fold (prim_step A vals W ws) [0..<length ws]) wss (Some m) = Some m'
           \<and> m' (g * int W + int k)
               = m (g * int W + int k)
                 + (\<Sum>idx\<leftarrow>filter (\<lambda>idx. gaussian_ids A (int idx) = g) (concat wss).
                      vals idx ! k)"
proof -
  have "prim_step A vals W = dense_step (gaussian_ids A) (int W) vals W"
    using assms(1) by (simp add: prim_step_def fun_eq_iff)
  then show ?thesis using dense_grid [OF assms(2), of "int W" "gaussian_ids A" vals wss m g]
    by simp
qed

lemma prim_sparse:
  assumes "sparse_grad A" and "\<forall>idx\<in>set (concat wss). length (vals idx) = W \<and> idx < n"
    and "W * n \<le> 2 ^ 32"
  shows "\<exists>m'. fold (\<lambda>ws. fold (prim_step A vals W ws) [0..<length ws]) wss (Some m) = Some m'
           \<and> (\<forall>idx\<in>set (concat wss). \<forall>k<W. m' (int (idx * W) + int k) = vals idx ! k)"
proof -
  have "prim_step A vals W ws = (\<lambda>p. sparse_step vals W (ws ! p))" for ws
    using assms(1) by (simp add: prim_step_def fun_eq_iff)
  then have "fold (\<lambda>ws. fold (prim_step A vals W ws) [0..<length ws]) wss (Some m)
             = fold (sparse_step vals W) (concat wss) (Some m)"
    by (simp add: fold_lanes fold_fold_concat)
  then show ?thesis using sparse_threads [OF assms(2,3), of m] by simp
qed

lemma upt_split: "i \<le> j \<Longrightarrow> j \<le> k \<Longrightarrow> [i..<k] = [i..<j] @ [j..<k]"
  using upt_add_eq_append [of i j "k - j"] by simp

lemma concat_concat_map: "concat (concat xsss) = concat (map concat xsss)"
  by (induction xsss) simp_all

lemma warp_chunks:
  "concat (map (\<lambda>w. [32 * w ..< min (32 * w + 32) n]) [0..<m]) = [0 ..< min (32 * m) n]"
proof (induction m)
  case 0
  then show ?case by simp
next
  case (Suc m)
  have e: "min (32 * Suc m) n = min (32 * m + 32) n" by simp
  have "[0 ..< min (32 * m) n] @ [32 * m ..< min (32 * m + 32) n] = [0 ..< min (32 * m + 32) n]"
  proof (cases "32 * m \<le> n")
    case True
    then have "min (32 * m) n = 32 * m" by simp
    moreover have "[0 ..< min (32 * m + 32) n] = [0 ..< 32 * m] @ [32 * m ..< min (32 * m + 32) n]"
      using True by (intro upt_split) auto
    ultimately show ?thesis by simp
  next
    case False
    then have "min (32 * m) n = n" "min (32 * m + 32) n = n" by simp_all
    then show ?thesis using False by simp
  qed
  then have "[0 ..< min (32 * m) n] @ [32 * m ..< min (32 * m + 32) n] = [0 ..< min (32 * Suc m) n]"
    by (simp only: e)
  then show ?case using Suc.IH by simp
qed

lemma block_rows:
  "concat (map (\<lambda>blk. map (\<lambda>r. blk * n + r) [0..<n]) [0..<m]) = [0 ..< m * n]"
proof (induction m)
  case 0
  then show ?case by simp
next
  case (Suc m)
  have "map (\<lambda>r. m * n + r) [0..<n] = [m * n ..< m * n + n]"
    by (simp add: map_add_upt add.commute)
  moreover have "[0 ..< m * n + n] = [0 ..< m * n] @ [m * n ..< m * n + n]"
    by (intro upt_split) auto
  ultimately show ?case using Suc.IH by (simp add: add.commute)
qed

lemma filter_less_upt: "filter (\<lambda>i. i < n) [0..<m] = [0 ..< min n m]"
proof (induction m)
  case 0
  then show ?case by simp
next
  case (Suc m)
  show ?case
  proof (cases "m < n")
    case True
    then have "min n (Suc m) = Suc m" "min n m = m" by simp_all
    then show ?thesis using Suc.IH True by simp
  next
    case False
    then have "min n (Suc m) = n" "min n m = n" by simp_all
    then show ?thesis using Suc.IH False by simp
  qed
qed

lemma blocks_cover:
  fixes n NT :: nat
  assumes "0 < NT"
  shows "n \<le> ((n + NT - 1) div NT) * NT" and "((n + NT - 1) div NT) * NT \<le> n + NT - 1"
proof -
  have "(n + NT - 1) = ((n + NT - 1) div NT) * NT + (n + NT - 1) mod NT" by simp
  moreover have "(n + NT - 1) mod NT < NT" using assms by simp
  ultimately show "n \<le> ((n + NT - 1) div NT) * NT" by linarith
  show "((n + NT - 1) div NT) * NT \<le> n + NT - 1" by simp
qed

lemma grid_threads:
  assumes "0 < NT" and "nb * NT \<le> 2 ^ 32"
  shows "concat (grid_warps NT nb n) = [0 ..< min n (nb * NT)]"
proof -
  have inner: "concat (map (\<lambda>w. filter (\<lambda>idx. idx < n)
                       (map (\<lambda>r. u32 (int blk * int NT + int r))
                            [32 * w ..< min (32 * w + 32) NT]))
                   [0 ..< (NT + 31) div 32])
               = filter (\<lambda>idx. idx < n) (map (\<lambda>r. blk * NT + r) [0..<NT])"
    if "blk \<in> set [0..<nb]" for blk
  proof -
    have "concat (map (\<lambda>w. filter (\<lambda>idx. idx < n)
                       (map (\<lambda>r. u32 (int blk * int NT + int r))
                            [32 * w ..< min (32 * w + 32) NT]))
                   [0 ..< (NT + 31) div 32])
          = filter (\<lambda>idx. idx < n) (map (\<lambda>r. u32 (int blk * int NT + int r))
              (concat (map (\<lambda>w. [32 * w ..< min (32 * w + 32) NT]) [0 ..< (NT + 31) div 32])))"
      by (simp add: filter_concat map_concat comp_def)
    also have "concat (map (\<lambda>w. [32 * w ..< min (32 * w + 32) NT]) [0 ..< (NT + 31) div 32])
               = [0..<NT]"
    proof -
      have "NT \<le> 32 * ((NT + 31) div 32)" using blocks_cover(1) [of 32 NT] by (simp add: mult.commute)
      then have "min (32 * ((NT + 31) div 32)) NT = NT" by simp
      then show ?thesis by (simp only: warp_chunks)
    qed
    also have "map (\<lambda>r. u32 (int blk * int NT + int r)) [0..<NT] = map (\<lambda>r. blk * NT + r) [0..<NT]"
    proof (intro map_cong refl)
      fix r assume "r \<in> set [0..<NT]"
      then have "r < NT" by simp
      have "blk < nb" using that by simp
      then have "Suc blk * NT \<le> nb * NT" by (intro mult_le_mono1) simp
      then have "blk * NT + r < 2 ^ 32" using \<open>r < NT\<close> assms(2) by simp
      moreover have "int blk * int NT + int r = int (blk * NT + r)" by simp
      ultimately show "u32 (int blk * int NT + int r) = blk * NT + r"
        by (simp only: u32_nat) simp
    qed
    finally show ?thesis .
  qed
  have "concat (grid_warps NT nb n)
        = concat (map (\<lambda>blk. filter (\<lambda>idx. idx < n) (map (\<lambda>r. blk * NT + r) [0..<NT])) [0..<nb])"
    unfolding grid_warps_def concat_concat_map map_map comp_def
    by (intro arg_cong [where f = concat] map_cong refl inner)
  also have "\<dots> = filter (\<lambda>idx. idx < n)
                     (concat (map (\<lambda>blk. map (\<lambda>r. blk * NT + r) [0..<NT]) [0..<nb]))"
    by (simp add: filter_concat comp_def)
  also have "\<dots> = [0 ..< min n (nb * NT)]"
    by (simp add: block_rows filter_less_upt)
  finally show ?thesis .
qed

lemma grid_threads_all:
  assumes "0 < NT" and "n + NT \<le> 2 ^ 32"
  shows "concat (grid_warps NT (u32 (int n + int NT - 1) div NT) n) = [0..<n]"
proof -
  have "int n + int NT - 1 = int (n + NT - 1)" using assms(1) by (simp add: of_nat_diff)
  moreover have "n + NT - 1 < 2 ^ 32" using assms by simp
  ultimately have nb: "u32 (int n + int NT - 1) = n + NT - 1" by (simp only: u32_nat) simp
  have "((n + NT - 1) div NT) * NT \<le> n + NT - 1"
    by (rule blocks_cover(2) [OF assms(1)])
  then have "((n + NT - 1) div NT) * NT \<le> 2 ^ 32"
    using assms(2) by linarith
  then show ?thesis
    using grid_threads [OF assms(1), of "(n + NT - 1) div NT" n] blocks_cover(1) [OF assms(1), of n]
    by (simp add: nb min_def)
qed

lemma prim_totals:
  assumes "\<not> sparse_grad Ad" and "sparse_grad As"
    and "concat wssd = [0..<n]" and "concat wsss = [0..<n]"
    and "\<forall>idx<n. length (vals idx) = W" and "W * n \<le> 2 ^ 32" and "k < W"
  shows "\<exists>md ms.
           fold (\<lambda>ws. fold (prim_step Ad vals W ws) [0..<length ws]) wssd (Some (\<lambda>a. 0)) = Some md
         \<and> fold (\<lambda>ws. fold (prim_step As vals W ws) [0..<length ws]) wsss (Some (\<lambda>a. 0)) = Some ms
         \<and> md (g * int W + int k) = grouped_total (gaussian_ids Ad) n W ms g k"
proof -
  from prim_dense [OF assms(1,7), of vals wssd "\<lambda>a. 0" g]
  obtain md where md:
    "fold (\<lambda>ws. fold (prim_step Ad vals W ws) [0..<length ws]) wssd (Some (\<lambda>a. 0)) = Some md"
    "md (g * int W + int k)
       = (\<Sum>idx\<leftarrow>filter (\<lambda>idx. gaussian_ids Ad (int idx) = g) [0..<n]. vals idx ! k)"
    using assms(3) by auto
  have "\<forall>idx\<in>set (concat wsss). length (vals idx) = W \<and> idx < n"
    using assms(4,5) by simp
  from prim_sparse [OF assms(2) this assms(6), of "\<lambda>a. 0"]
  obtain ms where ms:
    "fold (\<lambda>ws. fold (prim_step As vals W ws) [0..<length ws]) wsss (Some (\<lambda>a. 0)) = Some ms"
    "\<forall>idx\<in>set [0..<n]. \<forall>k<W. ms (int (idx * W) + int k) = vals idx ! k"
    using assms(4) by auto
  have "(\<Sum>idx\<leftarrow>filter (\<lambda>idx. gaussian_ids Ad (int idx) = g) [0..<n]. vals idx ! k)
        = grouped_total (gaussian_ids Ad) n W ms g k"
    unfolding grouped_total_def
    by (intro arg_cong [where f = sum_list] map_cong refl) (use ms(2) assms(7) in auto)
  with md ms(1) show ?thesis by auto
qed

lemma vals_length:
  "length (mean_vals A idx) = 3" "length (covar_vals A idx) = 6"
  "length (quat_vals A idx) = 4" "length (scale_vals A idx) = 3"
  "length (viewmat_vals A idx) = 12"
  by (simp_all add: mean_vals_def covar_vals_def covar_out_def quat_vals_def scale_vals_def
      viewmat_vals_def viewmat_out_def)

lemma vals_truncate:
  "mean_vals (bwd_args.truncate (call\<lparr>sparse_grad := b\<rparr>)) = mean_vals (bwd_args.truncate call)"
  "covar_vals (bwd_args.truncate (call\<lparr>sparse_grad := b\<rparr>)) = covar_vals (bwd_args.truncate call)"
  "quat_vals (bwd_args.truncate (call\<lparr>sparse_grad := b\<rparr>)) = quat_vals (bwd_args.truncate call)"
  "scale_vals (bwd_args.truncate (call\<lparr>sparse_grad := b\<rparr>)) = scale_vals (bwd_args.truncate call)"
  "viewmat_vals (bwd_args.truncate (call\<lparr>sparse_grad := b\<rparr>)) = viewmat_vals (bwd_args.truncate call)"
  by (simp_all add: fun_eq_iff mean_vals_def covar_vals_def quat_vals_def scale_vals_def
      viewmat_vals_def bwd_args.truncate_def)

lemma truncate_sel:
  "sparse_grad (bwd_args.truncate call) = sparse_grad call"
  "nnz (bwd_args.truncate call) = nnz call"
  "gaussian_ids (bwd_args.truncate call) = gaussian_ids call"
  "camera_ids (bwd_args.truncate call) = camera_ids call"
  "local_vjp (bwd_args.truncate call) = local_vjp call"
  by (simp_all add: bwd_args.truncate_def)

lemma bwd_checks_flag: "bwd_checks (call\<lparr>sparse_grad := b\<rparr>) = bwd_checks call"
  by (simp add: bwd_checks_def bwd_checks_tail_def)

lemma zero_ptrs_flag: "zero_ptrs (call\<lparr>sparse_grad := b\<rparr>) = zero_ptrs call"
  by (simp add: zero_ptrs_def)

lemma bwd_num_blocks_flag: "bwd_num_blocks (call\<lparr>sparse_grad := b\<rparr>) = bwd_num_blocks call"
  by (simp add: bwd_num_blocks_def)

lemma tensor_result:
  assumes "bwd_checks call = None"
  shows "snd (fully_fused_projection_packed_bwd_tensor call)
         = Inr \<lparr>result_sizes = alloc_sizes call, result_data = run_data call\<rparr>"
  using assms by (simp add: fully_fused_projection_packed_bwd_tensor_def run_data_def)

lemma grid_warps_0: "concat (grid_warps NT nb 0) = []"
  by (simp add: grid_warps_def)

lemma run_data_field:
  assumes thread: "\<And>ws p out. Inv out \<Longrightarrow>
        fld (bwd_thread (bwd_args.truncate call) ws p out) = F ws p (fld out)"
    and inv: "\<And>ws p out. Inv out \<Longrightarrow> Inv (bwd_thread (bwd_args.truncate call) ws p out)"
    and "Inv (zero_ptrs call)"
    and "0 < N_THREADS call" and "nnz call + N_THREADS call \<le> 2 ^ 32"
  shows "\<exists>wss. concat wss = [0..<nnz call]
           \<and> fld (run_data call) = fold (\<lambda>ws. fold (F ws) [0..<length ws]) wss (fld (zero_ptrs call))"
proof (cases "nnz call = 0")
  case True
  then show ?thesis by (intro exI [of _ "[]"]) (simp add: run_data_def)
next
  case False
  let ?wss = "grid_warps (N_THREADS call) (bwd_num_blocks call) (nnz call)"
  have "concat ?wss = [0..<nnz call]"
    unfolding bwd_num_blocks_def by (rule grid_threads_all [OF assms(4,5)])
  moreover have "fld (run_data call)
                 = fold (\<lambda>ws. fold (F ws) [0..<length ws]) ?wss (fld (zero_ptrs call))"
    using False kernel_field [of Inv fld "bwd_args.truncate call" F "zero_ptrs call", OF thread inv assms(3)]
    by (simp add: run_data_def truncate_sel)
  ultimately show ?thesis by blast
qed

lemma field_totals:
  fixes vals :: "bwd_args \<Rightarrow> nat \<Rightarrow> real list"
  assumes thread: "\<And>A ws p out. Inv out \<Longrightarrow>
        fld (bwd_thread A ws p out) = prim_step A (vals A) W ws p (fld out)"
    and inv: "\<And>A ws p out. Inv out \<Longrightarrow> Inv (bwd_thread A ws p out)"
    and inv0: "Inv (zero_ptrs call)" and zero: "fld (zero_ptrs call) = Some (\<lambda>a. 0)"
    and flag: "\<And>b. vals (bwd_args.truncate (call\<lparr>sparse_grad := b\<rparr>)) = vals (bwd_args.truncate call)"
    and len: "\<And>idx. length (vals (bwd_args.truncate call) idx) = W"
    and W: "0 < W" "W * nnz call \<le> 2 ^ 32"
    and NT: "0 < N_THREADS call" "nnz call + N_THREADS call \<le> 2 ^ 32"
  shows "\<exists>md ms. fld (run_data (call\<lparr>sparse_grad := False\<rparr>)) = Some md
           \<and> fld (run_data (call\<lparr>sparse_grad := True\<rparr>)) = Some ms
           \<and> (k < W \<longrightarrow> md (g * int W + int k)
                          = grouped_total (gaussian_ids call) (nnz call) W ms g k)"
proof -
  let ?V = "vals (bwd_args.truncate call)"
  have side: "\<exists>wss. concat wss = [0..<nnz call]
      \<and> fld (run_data (call\<lparr>sparse_grad := b\<rparr>))
          = fold (\<lambda>ws. fold (prim_step (bwd_args.truncate (call\<lparr>sparse_grad := b\<rparr>)) ?V W ws)
                         [0..<length ws]) wss (Some (\<lambda>a. 0))" for b
    using run_data_field [of Inv fld "call\<lparr>sparse_grad := b\<rparr>"
        "prim_step (bwd_args.truncate (call\<lparr>sparse_grad := b\<rparr>)) ?V W"]
      thread [of _ "bwd_args.truncate (call\<lparr>sparse_grad := b\<rparr>)"] inv inv0 zero NT
    by (simp add: flag zero_ptrs_flag)
  from side [of False] obtain wssd where d: "concat wssd = [0..<nnz call]"
    "fld (run_data (call\<lparr>sparse_grad := False\<rparr>))
       = fold (\<lambda>ws. fold (prim_step (bwd_args.truncate (call\<lparr>sparse_grad := False\<rparr>)) ?V W ws)
                      [0..<length ws]) wssd (Some (\<lambda>a. 0))"
    by blast
  from side [of True] obtain wsss where s: "concat wsss = [0..<nnz call]"
    "fld (run_data (call\<lparr>sparse_grad := True\<rparr>))
       = fold (\<lambda>ws. fold (prim_step (bwd_args.truncate (call\<lparr>sparse_grad := True\<rparr>)) ?V W ws)
                      [0..<length ws]) wsss (Some (\<lambda>a. 0))"
    by blast
  have fd: "\<not> sparse_grad (bwd_args.truncate (call\<lparr>sparse_grad := False\<rparr>))"
    and fs: "sparse_grad (bwd_args.truncate (call\<lparr>sparse_grad := True\<rparr>))"
    by (simp_all add: truncate_sel)
  have lens: "\<forall>idx<nnz call. length (?V idx) = W" by (simp add: len)
  have gid: "gaussian_ids (bwd_args.truncate (call\<lparr>sparse_grad := False\<rparr>)) = gaussian_ids call"
    by (simp add: truncate_sel)
  have any: "\<exists>md ms. fld (run_data (call\<lparr>sparse_grad := False\<rparr>)) = Some md
           \<and> fld (run_data (call\<lparr>sparse_grad := True\<rparr>)) = Some ms
           \<and> md (g * int W + int j)
                = grouped_total (gaussian_ids call) (nnz call) W ms g j" if "j < W" for j
    using prim_totals [OF fd fs d(1) s(1) lens W(2) that, of g] d(2) s(2) gid by simp
  show ?thesis
  proof (cases "k < W")
    case True
    then show ?thesis using any [of k] by blast
  next
    case False
    then show ?thesis using any [of 0] W(1) by blast
  qed
qed

text \<open>
  The kernel above runs the threads one after the other. For the dense layout the order
  is immaterial: atomic additions commute, so any order of the lanes of a warp gives the
  same buffers.
\<close>

lemma atomicAdds_commute:
  "atomicAdds (atomicAdds ptr a vs) b ws = atomicAdds (atomicAdds ptr b ws) a vs"
  by (cases ptr) (simp_all add: atomicAdds_def fun_eq_iff atomicAdd_list_eq)

lemma dense_step_commute:
  "dense_step label stride vals W ws p (dense_step label' stride' vals' W' ws' q ptr)
   = dense_step label' stride' vals' W' ws' q (dense_step label stride vals W ws p ptr)"
  by (simp add: dense_step_def atomicAdds_commute)

lemma dense_lanes_any_order:
  assumes "mset ps = mset qs"
  shows "fold (dense_step label stride vals W ws) ps ptr
         = fold (dense_step label stride vals W ws) qs ptr"
proof -
  have "fold (dense_step label stride vals W ws) ps = fold (dense_step label stride vals W ws) qs"
    by (rule fold_multiset_equiv [OF _ assms]) (simp add: dense_step_commute fun_eq_iff)
  then show ?thesis by simp
qed

lemma bwd_thread_dense_commute:
  assumes "\<not> sparse_grad A"
  shows "bwd_thread A ws p (bwd_thread A ws' q out) = bwd_thread A ws' q (bwd_thread A ws p out)"
proof (rule grad_ptrs.equality)
  have ps: "prim_step A vals W ws p = dense_step (gaussian_ids A) (int W) vals W ws p"
    for vals W ws p
    using assms by (simp add: prim_step_def fun_eq_iff)
  show "v_means (bwd_thread A ws p (bwd_thread A ws' q out))
        = v_means (bwd_thread A ws' q (bwd_thread A ws p out))"
    unfolding bwd_thread_fields ps by (rule dense_step_commute)
  show "v_covars (bwd_thread A ws p (bwd_thread A ws' q out))
        = v_covars (bwd_thread A ws' q (bwd_thread A ws p out))"
    unfolding bwd_thread_fields ps by (rule dense_step_commute)
  show "v_viewmats (bwd_thread A ws p (bwd_thread A ws' q out))
        = v_viewmats (bwd_thread A ws' q (bwd_thread A ws p out))"
    unfolding bwd_thread_fields by (rule dense_step_commute)
  show "v_quats (bwd_thread A ws p (bwd_thread A ws' q out))
        = v_quats (bwd_thread A ws' q (bwd_thread A ws p out))"
  proof (cases "v_covars out = None")
    case True
    then have "v_covars (bwd_thread A ws' q out) = None" "v_covars (bwd_thread A ws p out) = None"
      by (simp_all only: bwd_thread_fields(8))
    then show ?thesis
      using True by (simp only: bwd_thread_fields(3) ps) (rule dense_step_commute)
  next
    case False
    then have "v_covars (bwd_thread A ws' q out) \<noteq> None" "v_covars (bwd_thread A ws p out) \<noteq> None"
      by (simp_all only: bwd_thread_fields(8) not_False_eq_True)
    then show ?thesis using False by (simp add: bwd_thread_fields(5))
  qed
  show "v_scales (bwd_thread A ws p (bwd_thread A ws' q out))
        = v_scales (bwd_thread A ws' q (bwd_thread A ws p out))"
  proof (cases "v_covars out = None")
    case True
    then have "v_covars (bwd_thread A ws' q out) = None" "v_covars (bwd_thread A ws p out) = None"
      by (simp_all only: bwd_thread_fields(8))
    then show ?thesis
      using True by (simp only: bwd_thread_fields(4) ps) (rule dense_step_commute)
  next
    case False
    then have "v_covars (bwd_thread A ws' q out) \<noteq> None" "v_covars (bwd_thread A ws p out) \<noteq> None"
      by (simp_all only: bwd_thread_fields(8) not_False_eq_True)
    then show ?thesis using False by (simp add: bwd_thread_fields(6))
  qed
qed simp

lemma dense_threads_any_order:
  assumes "\<not> sparse_grad A" and "mset ps = mset qs"
  shows "fold (bwd_thread A ws) ps out = fold (bwd_thread A ws) qs out"
proof -
  have "fold (bwd_thread A ws) ps = fold (bwd_thread A ws) qs"
    by (rule fold_multiset_equiv [OF _ assms(2)])
       (simp add: bwd_thread_dense_commute [OF assms(1)] fun_eq_iff)
  then show ?thesis by simp
qed

text \<open>An offset that no group's additions reach keeps its value.\<close>

lemma add_at_outside:
  "\<not> (base \<le> a \<and> a < base + int (length vs)) \<Longrightarrow> add_at base vs a = 0"
  by (auto simp: add_at_def)

lemma dense_grid_untouched:
  assumes "\<And>l. \<not> (l * stride \<le> a \<and> a < l * stride + int W)"
  shows "\<exists>m'. fold (\<lambda>ws. fold (dense_step label stride vals W ws) [0..<length ws]) wss (Some m)
                 = Some m' \<and> m' a = m a"
proof (induction wss arbitrary: m)
  case Nil
  then show ?case by simp
next
  case (Cons ws wss)
  have step: "dense_step label stride vals W ws
              = (\<lambda>p ptr. if thread_rank (labeled_partition label ws p) p = 0
                   then atomicAdds ptr (label (int (ws ! p)) * stride)
                     (map (\<lambda>k. warpSum (\<lambda>i. vals i ! k) ws (labeled_partition label ws p)) [0..<W])
                   else ptr)"
    by (simp add: dense_step_def fun_eq_iff)
  have zero: "(\<Sum>p\<leftarrow>[0..<length ws]. if thread_rank (labeled_partition label ws p) p = 0
                 then add_at (label (int (ws ! p)) * stride)
                     (map (\<lambda>k. warpSum (\<lambda>i. vals i ! k) ws (labeled_partition label ws p)) [0..<W]) a
                 else 0) = 0"
  proof -
    have "add_at (label (int (ws ! p)) * stride)
            (map (\<lambda>k. warpSum (\<lambda>i. vals i ! k) ws (labeled_partition label ws p)) [0..<W]) a = 0"
      for p
      using assms [of "label (int (ws ! p))"] by (intro add_at_outside) simp
    then have "(\<Sum>p\<leftarrow>[0..<length ws]. if thread_rank (labeled_partition label ws p) p = 0
                 then add_at (label (int (ws ! p)) * stride)
                     (map (\<lambda>k. warpSum (\<lambda>i. vals i ! k) ws (labeled_partition label ws p)) [0..<W]) a
                 else 0) = (\<Sum>p\<leftarrow>[0..<length ws]. 0)"
      by (intro arg_cong [where f = sum_list] map_cong refl) simp
    then show ?thesis by simp
  qed
  have "\<exists>m1. fold (dense_step label stride vals W ws) [0..<length ws] (Some m) = Some m1
          \<and> m1 a = m a"
    unfolding step by (subst fold_atomicAdds) (simp add: zero)
  then obtain m1 where m1:
    "fold (dense_step label stride vals W ws) [0..<length ws] (Some m) = Some m1" "m1 a = m a"
    by blast
  from Cons.IH [of m1] m1 show ?case by simp
qed

lemma prim_step_None_iff: "prim_step A vals W ws p ptr = None \<longleftrightarrow> ptr = None"
  by (simp add: prim_step_def step_None_iff)

text \<open>
  C6. For the same input, the per-primitive totals that the dense layout accumulates
  (a group sum in each warp, then one \<^verbatim>\<open>atomicAdd\<close> by the group's first lane) equal the
  sums, grouped by primitive id, of the per-record gradients that the sparse layout
  writes: for the means, and for the covariances or else the quaternions and scales. The
  launch covers the records (\<open>nnz + N_THREADS \<le> 2\<^sup>3\<^sup>2\<close>) and the sparse offsets do not wrap
  (\<open>6 * nnz \<le> 2\<^sup>3\<^sup>2\<close>); on reals the equality is exact.
\<close>
theorem dense_totals_equal_grouped_sparse:
  assumes "bwd_checks call = None"
    and "0 < N_THREADS call" and "nnz call + N_THREADS call \<le> 2 ^ 32"
    and "6 * nnz call \<le> 2 ^ 32"
  shows "\<exists>rd rs.
           snd (fully_fused_projection_packed_bwd_tensor (call\<lparr>sparse_grad := False\<rparr>)) = Inr rd
         \<and> snd (fully_fused_projection_packed_bwd_tensor (call\<lparr>sparse_grad := True\<rparr>)) = Inr rs
         \<and> (\<exists>md ms. v_means (result_data rd) = Some md \<and> v_means (result_data rs) = Some ms
               \<and> (k < 3 \<longrightarrow> md (g * 3 + int k)
                     = grouped_total (gaussian_ids call) (nnz call) 3 ms g k))
         \<and> (covars_sizes call \<noteq> None \<longrightarrow>
               (\<exists>md ms. v_covars (result_data rd) = Some md \<and> v_covars (result_data rs) = Some ms
                  \<and> (k < 6 \<longrightarrow> md (g * 6 + int k)
                        = grouped_total (gaussian_ids call) (nnz call) 6 ms g k)))
         \<and> (covars_sizes call = None \<longrightarrow>
               (\<exists>md ms. v_quats (result_data rd) = Some md \<and> v_quats (result_data rs) = Some ms
                  \<and> (k < 4 \<longrightarrow> md (g * 4 + int k)
                        = grouped_total (gaussian_ids call) (nnz call) 4 ms g k))
             \<and> (\<exists>md ms. v_scales (result_data rd) = Some md \<and> v_scales (result_data rs) = Some ms
                  \<and> (k < 3 \<longrightarrow> md (g * 3 + int k)
                        = grouped_total (gaussian_ids call) (nnz call) 3 ms g k)))"
proof -
  have n3: "3 * nnz call \<le> 2 ^ 32" and n4: "4 * nnz call \<le> 2 ^ 32"
    using assms(4) by simp_all
  have means: "\<exists>md ms. v_means (run_data (call\<lparr>sparse_grad := False\<rparr>)) = Some md
           \<and> v_means (run_data (call\<lparr>sparse_grad := True\<rparr>)) = Some ms
           \<and> (k < 3 \<longrightarrow> md (g * int 3 + int k)
                 = grouped_total (gaussian_ids call) (nnz call) 3 ms g k)"
    by (rule field_totals [where Inv = "\<lambda>out. True" and vals = mean_vals])
       (use n3 assms(2,3) in \<open>simp_all add: bwd_thread_fields prim_step_None_iff vals_truncate vals_length
          zero_ptrs_def\<close>)
  have covars: "\<exists>md ms. v_covars (run_data (call\<lparr>sparse_grad := False\<rparr>)) = Some md
           \<and> v_covars (run_data (call\<lparr>sparse_grad := True\<rparr>)) = Some ms
           \<and> (k < 6 \<longrightarrow> md (g * int 6 + int k)
                 = grouped_total (gaussian_ids call) (nnz call) 6 ms g k)"
    if "covars_sizes call \<noteq> None"
    by (rule field_totals [where Inv = "\<lambda>out. True" and vals = covar_vals])
       (use that assms(2,3,4) in \<open>simp_all add: bwd_thread_fields prim_step_None_iff vals_truncate vals_length
          zero_ptrs_def\<close>)
  have quats: "\<exists>md ms. v_quats (run_data (call\<lparr>sparse_grad := False\<rparr>)) = Some md
           \<and> v_quats (run_data (call\<lparr>sparse_grad := True\<rparr>)) = Some ms
           \<and> (k < 4 \<longrightarrow> md (g * int 4 + int k)
                 = grouped_total (gaussian_ids call) (nnz call) 4 ms g k)"
    if "covars_sizes call = None"
    by (rule field_totals [where Inv = "\<lambda>out. v_covars out = None" and vals = quat_vals])
       (use that n4 assms(2,3) in \<open>simp_all add: bwd_thread_fields prim_step_None_iff vals_truncate vals_length
          zero_ptrs_def\<close>)
  have scales: "\<exists>md ms. v_scales (run_data (call\<lparr>sparse_grad := False\<rparr>)) = Some md
           \<and> v_scales (run_data (call\<lparr>sparse_grad := True\<rparr>)) = Some ms
           \<and> (k < 3 \<longrightarrow> md (g * int 3 + int k)
                 = grouped_total (gaussian_ids call) (nnz call) 3 ms g k)"
    if "covars_sizes call = None"
    by (rule field_totals [where Inv = "\<lambda>out. v_covars out = None" and vals = scale_vals])
       (use that n3 assms(2,3) in \<open>simp_all add: bwd_thread_fields prim_step_None_iff vals_truncate vals_length
          zero_ptrs_def\<close>)
  have "bwd_checks (call\<lparr>sparse_grad := False\<rparr>) = None"
    "bwd_checks (call\<lparr>sparse_grad := True\<rparr>) = None"
    using assms(1) by (simp_all add: bwd_checks_flag)
  then have "snd (fully_fused_projection_packed_bwd_tensor (call\<lparr>sparse_grad := False\<rparr>))
         = Inr \<lparr>result_sizes = alloc_sizes (call\<lparr>sparse_grad := False\<rparr>),
                result_data = run_data (call\<lparr>sparse_grad := False\<rparr>)\<rparr>"
    "snd (fully_fused_projection_packed_bwd_tensor (call\<lparr>sparse_grad := True\<rparr>))
         = Inr \<lparr>result_sizes = alloc_sizes (call\<lparr>sparse_grad := True\<rparr>),
                result_data = run_data (call\<lparr>sparse_grad := True\<rparr>)\<rparr>"
    by (simp_all add: tensor_result)
  then show ?thesis using means covars quats scales by simp
qed

lemma ex_bwd_sel:
  "nnz ex_bwd = 2" "gaussian_ids ex_bwd = (\<lambda>i. 0)" "camera_ids ex_bwd = (\<lambda>i. 0)"
  "covars_sizes ex_bwd = Some [1, 6]" "N_THREADS ex_bwd = 256" "bwd_C ex_bwd = 1"
  "viewmats_sizes ex_bwd = [1, 4, 4]" "viewmats_requires_grad ex_bwd" "\<not> NDEBUG ex_bwd"
  "\<not> compensations_has_value ex_bwd" "\<not> v_compensations_has_value ex_bwd"
  "bwd_check_input ex_bwd = (\<lambda>name. True)"
  "local_vjp ex_bwd = (\<lambda>idx. \<lparr>v_mean = (\<lambda>i. 1), v_covar = (\<lambda>c r. 1), v_quat = (\<lambda>i. 1),
                           v_scale = (\<lambda>i. 1), v_R = (\<lambda>c r. 1), v_t = (\<lambda>i. 1)\<rparr>)"
  by (simp_all add: ex_bwd_def)

lemma ex_bwd_checks: "bwd_checks ex_bwd = None"
  by (simp add: bwd_checks_def bwd_checks_tail_def require_def ex_bwd_sel)

theorem dense_totals_equal_grouped_sparse_witness:
  "\<exists>rd rs.
     snd (fully_fused_projection_packed_bwd_tensor (ex_bwd\<lparr>sparse_grad := False\<rparr>)) = Inr rd
   \<and> snd (fully_fused_projection_packed_bwd_tensor (ex_bwd\<lparr>sparse_grad := True\<rparr>)) = Inr rs
   \<and> (\<exists>md ms. v_means (result_data rd) = Some md \<and> v_means (result_data rs) = Some ms
         \<and> md 1 = ms 1 + ms 4)
   \<and> (\<exists>md ms. v_covars (result_data rd) = Some md \<and> v_covars (result_data rs) = Some ms
         \<and> md 1 = ms 1 + ms 7)"
proof -
  have h2: "0 < N_THREADS ex_bwd" by (simp add: ex_bwd_sel)
  have h3: "nnz ex_bwd + N_THREADS ex_bwd \<le> 2 ^ 32" by (simp add: ex_bwd_sel)
  have h4: "6 * nnz ex_bwd \<le> 2 ^ 32" by (simp add: ex_bwd_sel)
  have up: "[0..<2] = [0, 1]" by (simp add: upt_rec)
  show ?thesis
    using dense_totals_equal_grouped_sparse [OF ex_bwd_checks h2 h3 h4, where g = 0 and k = 1]
    by (auto simp: grouped_total_def ex_bwd_sel up)
qed

text \<open>
  C7. When camera gradients are requested, the entry point returns them in a buffer of
  sizes \<open>[C, 4, 4]\<close> whose entry \<open>k\<close> of the first three rows of camera \<open>c\<close> is the sum of
  that entry over all records of camera \<open>c\<close>, and whose fourth row is zero, whatever the
  layout flag \<open>b\<close> is.
\<close>
theorem viewmat_gradients_always_dense:
  assumes "bwd_checks call = None" and "viewmats_requires_grad call"
    and "viewmats_sizes call = [bwd_C call, 4, 4]"
    and "0 < N_THREADS call" and "nnz call + N_THREADS call \<le> 2 ^ 32"
  shows "\<exists>r m.
           snd (fully_fused_projection_packed_bwd_tensor (call\<lparr>sparse_grad := b\<rparr>)) = Inr r
         \<and> v_viewmats_sizes (result_sizes r) = Some [bwd_C call, 4, 4]
         \<and> v_viewmats (result_data r) = Some m
         \<and> (k < 12 \<longrightarrow> m (c * 16 + int k)
               = (\<Sum>idx\<leftarrow>filter (\<lambda>idx. camera_ids call (int idx) = c) [0..<nnz call].
                    viewmat_out (v_R (local_vjp call idx)) (v_t (local_vjp call idx)) ! k))
         \<and> (12 \<le> k \<and> k < 16 \<longrightarrow> m (c * 16 + int k) = 0)"
proof -
  let ?call = "call\<lparr>sparse_grad := b\<rparr>"
  let ?A = "bwd_args.truncate ?call"
  have res: "snd (fully_fused_projection_packed_bwd_tensor ?call)
         = Inr \<lparr>result_sizes = alloc_sizes ?call, result_data = run_data ?call\<rparr>"
    using assms(1) by (simp add: tensor_result bwd_checks_flag)
  have sizes: "v_viewmats_sizes (alloc_sizes ?call) = Some [bwd_C call, 4, 4]"
    using assms(2,3) by (simp add: alloc_sizes_def)
  obtain wss where wss: "concat wss = [0..<nnz call]"
    "v_viewmats (run_data ?call)
       = fold (\<lambda>ws. fold (dense_step (camera_ids ?A) 16 (viewmat_vals ?A) 12 ws) [0..<length ws])
           wss (Some (\<lambda>a. 0))"
    using run_data_field [of "\<lambda>out. True" v_viewmats ?call
        "dense_step (camera_ids ?A) 16 (viewmat_vals ?A) 12"] assms(2,4,5)
    by (auto simp: bwd_thread_fields zero_ptrs_def)
  have any: "\<exists>m. v_viewmats (run_data ?call) = Some m
        \<and> m (c * 16 + int j)
            = (\<Sum>idx\<leftarrow>filter (\<lambda>idx. camera_ids call (int idx) = c) [0..<nnz call].
                 viewmat_out (v_R (local_vjp call idx)) (v_t (local_vjp call idx)) ! j)"
    if "j < 12" for j
    using dense_grid [of j 12 16 "camera_ids ?A" "viewmat_vals ?A" wss "\<lambda>a. 0" c] that wss
    by (simp add: truncate_sel viewmat_vals_def)
  have row4: "\<exists>m. v_viewmats (run_data ?call) = Some m \<and> m (c * 16 + int k) = 0"
    if "12 \<le> k" "k < 16"
  proof -
    have "\<not> (l * 16 \<le> c * 16 + int k \<and> c * 16 + int k < l * 16 + int 12)" for l :: int
      using that by presburger
    from dense_grid_untouched [of 16 "c * 16 + int k" 12 "camera_ids ?A" "viewmat_vals ?A" wss
        "\<lambda>a. 0", OF this]
    show ?thesis using wss(2) by simp
  qed
  show ?thesis
  proof (cases "k < 12")
    case True
    then show ?thesis using any [of k] res sizes by auto
  next
    case False
    show ?thesis
    proof (cases "k < 16")
      case True
      then show ?thesis using row4 False res sizes by auto
    next
      case False
      then show ?thesis using any [of 0] res sizes by auto
    qed
  qed
qed

theorem viewmat_gradients_always_dense_witness:
  "\<exists>r m. snd (fully_fused_projection_packed_bwd_tensor (ex_bwd\<lparr>sparse_grad := True\<rparr>)) = Inr r
         \<and> v_viewmats_sizes (result_sizes r) = Some [1, 4, 4]
         \<and> v_viewmats (result_data r) = Some m \<and> m 3 = 2"
proof -
  have h2: "viewmats_requires_grad ex_bwd" by (simp add: ex_bwd_sel)
  have h3: "viewmats_sizes ex_bwd = [bwd_C ex_bwd, 4, 4]" by (simp add: ex_bwd_sel)
  have h4: "0 < N_THREADS ex_bwd" by (simp add: ex_bwd_sel)
  have h5: "nnz ex_bwd + N_THREADS ex_bwd \<le> 2 ^ 32" by (simp add: ex_bwd_sel)
  have up: "[0..<2] = [0, 1]" by (simp add: upt_rec)
  show ?thesis
    using viewmat_gradients_always_dense [OF ex_bwd_checks h2 h3 h4 h5, where b = True
        and c = 0 and k = 3]
    by (auto simp: ex_bwd_sel up viewmat_out_def)
qed

section \<open>Properties of the entry points\<close>

lemma switch_case_launch:
  "set_attribute_ok call cd (shared_mem call) \<Longrightarrow>
   \<exists>l r. switch_case cd call = ([l], Inr r) \<and> launch_COLOR_DIM l = cd"
  by (simp add: switch_case_def)

lemma switch_case_not_unsupported:
  "snd (switch_case cd call) \<noteq> Inl (Unsupported_Channels n)"
  by (simp add: switch_case_def)

lemma dispatch_supported:
  assumes "channels call \<in> supported_channels" and "fwd_checks call = None"
  shows "rasterize_to_pixels_fwd_tensor call = switch_case (channels call) call"
proof -
  from assms(1) consider "channels call = 1" | "channels call = 2" | "channels call = 3"
    | "channels call = 4" | "channels call = 5" | "channels call = 8" | "channels call = 9"
    | "channels call = 16" | "channels call = 17" | "channels call = 32" | "channels call = 33"
    | "channels call = 64" | "channels call = 65" | "channels call = 128"
    | "channels call = 129" | "channels call = 256" | "channels call = 257"
    | "channels call = 512" | "channels call = 513"
    unfolding supported_channels_def by blast
  then show ?thesis
    by cases (simp_all add: rasterize_to_pixels_fwd_tensor_def assms(2))
qed

lemma dispatch_unsupported:
  assumes "channels call \<notin> supported_channels" and "fwd_checks call = None"
  shows "rasterize_to_pixels_fwd_tensor call = ([], Inl (Unsupported_Channels (channels call)))"
  using assms by (simp add: rasterize_to_pixels_fwd_tensor_def supported_channels_def)

lemma dispatch_check_failed:
  assumes "fwd_checks call = Some e"
  shows "rasterize_to_pixels_fwd_tensor call = ([], Inl e)"
  using assms by (simp add: rasterize_to_pixels_fwd_tensor_def)

lemma fwd_checks_error: "fwd_checks call = Some e \<Longrightarrow> \<exists>name. e = Check_Input name"
  by (auto simp: fwd_checks_def require_def split: if_splits)

text \<open>
  C8. A channel count outside \<open>{1, 2, 3, 4, 5, 8, 9, 16, 17, 32, 33, 64, 65, 128, 129, 256,
  257, 512, 513}\<close> makes the forward entry point fail without launching any kernel, with
  "Unsupported number of channels" when the input checks pass. A count in the set is never
  rejected as unsupported, and the kernel instance of that width is launched when the
  input checks pass and the shared-memory attribute can be set.
\<close>
theorem unsupported_channels_rejected:
  "(channels call \<notin> supported_channels \<longrightarrow>
       fst (rasterize_to_pixels_fwd_tensor call) = []
     \<and> (\<exists>e. snd (rasterize_to_pixels_fwd_tensor call) = Inl e)
     \<and> (fwd_checks call = None \<longrightarrow>
          snd (rasterize_to_pixels_fwd_tensor call) = Inl (Unsupported_Channels (channels call))))
 \<and> (channels call \<in> supported_channels \<longrightarrow>
       (\<forall>n. snd (rasterize_to_pixels_fwd_tensor call) \<noteq> Inl (Unsupported_Channels n))
     \<and> (fwd_checks call = None \<and> set_attribute_ok call (channels call) (shared_mem call) \<longrightarrow>
          (\<exists>l r. rasterize_to_pixels_fwd_tensor call = ([l], Inr r)
                 \<and> launch_COLOR_DIM l = channels call)))"
proof (intro conjI impI allI)
  assume u: "channels call \<notin> supported_channels"
  show "fst (rasterize_to_pixels_fwd_tensor call) = []"
    using u by (cases "fwd_checks call") (simp_all add: dispatch_unsupported dispatch_check_failed)
  show "\<exists>e. snd (rasterize_to_pixels_fwd_tensor call) = Inl e"
    using u by (cases "fwd_checks call") (simp_all add: dispatch_unsupported dispatch_check_failed)
  show "snd (rasterize_to_pixels_fwd_tensor call) = Inl (Unsupported_Channels (channels call))"
    if "fwd_checks call = None"
    using u that by (simp add: dispatch_unsupported)
next
  fix n
  assume s: "channels call \<in> supported_channels"
  show "snd (rasterize_to_pixels_fwd_tensor call) \<noteq> Inl (Unsupported_Channels n)"
  proof (cases "fwd_checks call")
    case None
    then show ?thesis using s by (simp add: dispatch_supported switch_case_not_unsupported)
  next
    case (Some e)
    then show ?thesis using fwd_checks_error [OF Some] by (auto simp: dispatch_check_failed)
  qed
next
  assume s: "channels call \<in> supported_channels"
    and ok: "fwd_checks call = None \<and> set_attribute_ok call (channels call) (shared_mem call)"
  show "\<exists>l r. rasterize_to_pixels_fwd_tensor call = ([l], Inr r)
                 \<and> launch_COLOR_DIM l = channels call"
    using s ok switch_case_launch [of call "channels call"] by (simp add: dispatch_supported)
qed

lemma ex_call_checks: "fwd_checks (ex_call\<lparr>channels := n\<rparr>) = None"
  by (simp add: fwd_checks_def require_def ex_call_def)

theorem unsupported_channels_rejected_witness:
  "rasterize_to_pixels_fwd_tensor ex_call = ([], Inl (Unsupported_Channels 7))
   \<and> (\<exists>l r. rasterize_to_pixels_fwd_tensor (ex_call\<lparr>channels := 3\<rparr>) = ([l], Inr r)
            \<and> launch_COLOR_DIM l = 3)"
proof -
  have c7: "channels ex_call = 7" by (simp add: ex_call_def)
  have h1: "channels ex_call \<notin> supported_channels" by (simp add: c7 supported_channels_def)
  have h2: "fwd_checks ex_call = None" using ex_call_checks [of 7] by (simp add: ex_call_def)
  have h3: "channels (ex_call\<lparr>channels := 3\<rparr>) \<in> supported_channels"
    by (simp add: supported_channels_def)
  have h4: "set_attribute_ok (ex_call\<lparr>channels := 3\<rparr>) 3 (shared_mem (ex_call\<lparr>channels := 3\<rparr>))"
    by (simp add: ex_call_def)
  show ?thesis
    using unsupported_channels_rejected [of ex_call]
      unsupported_channels_rejected [of "ex_call\<lparr>channels := 3\<rparr>"] h1 h2 h3 h4 ex_call_checks [of 3]
    by (simp add: c7 prod_eq_iff)
qed

text \<open>
  C9. The check of line 268 is an \<^verbatim>\<open>assert\<close>, so it exists in one of the two builds only.
  In a build with \<^verbatim>\<open>NDEBUG\<close>, a call that supplies \<^verbatim>\<open>v_compensations\<close> without
  \<^verbatim>\<open>compensations\<close> and passes the other checks throws nothing: it launches the kernel
  with a null \<^verbatim>\<open>compensations\<close> pointer and returns its tensors, and the thread of every
  record reads \<^verbatim>\<open>compensations[idx]\<close> through that null pointer at line 75. The same call in
  a build with assertions stops at line 268 before any launch.
\<close>
theorem null_compensations_reach_kernel:
  assumes "NDEBUG call"
    and "v_compensations_has_value call" and "\<not> compensations_has_value call"
    and "\<forall>name. bwd_check_input call name"
    and "covars_sizes call \<noteq> None \<or> quats_sizes call \<noteq> None \<and> scales_sizes call \<noteq> None"
    and "nnz call \<noteq> 0" and "0 < N_THREADS call" and "nnz call + N_THREADS call \<le> 2 ^ 32"
  shows "bwd_checks call = None
       \<and> fst (fully_fused_projection_packed_bwd_tensor call)
           = [\<lparr>launch_num_blocks = bwd_num_blocks call, launch_block_threads = N_THREADS call\<rparr>]
       \<and> \<not> isl (snd (fully_fused_projection_packed_bwd_tensor call))
       \<and> bwd_null_reads call = [0..<nnz call]
       \<and> fully_fused_projection_packed_bwd_tensor (call\<lparr>NDEBUG := False\<rparr>)
           = ([], Inl (Assertion_Failed ''compensations.has_value()''))"
proof -
  have tail: "bwd_checks_tail call = None"
    using assms(1,4) by (simp add: bwd_checks_tail_def require_def)
  have checks: "bwd_checks call = None"
    using assms(1,4,5) tail by (auto simp: bwd_checks_def require_def)
  have launch: "fst (fully_fused_projection_packed_bwd_tensor call)
           = [\<lparr>launch_num_blocks = bwd_num_blocks call, launch_block_threads = N_THREADS call\<rparr>]"
    using checks assms(6) by (simp add: fully_fused_projection_packed_bwd_tensor_def)
  have returned: "\<not> isl (snd (fully_fused_projection_packed_bwd_tensor call))"
    using checks by (simp add: fully_fused_projection_packed_bwd_tensor_def)
  have "concat (grid_warps (N_THREADS call) (bwd_num_blocks call) (nnz call)) = [0..<nnz call]"
    unfolding bwd_num_blocks_def by (rule grid_threads_all [OF assms(7,8)])
  then have reads: "bwd_null_reads call = [0..<nnz call]"
    using checks assms(2,3,6)
    by (simp add: bwd_null_reads_def kernel_null_reads_def reads_null_compensations_def)
  have tail': "bwd_checks_tail (call\<lparr>NDEBUG := False\<rparr>)
                 = Some (Assertion_Failed ''compensations.has_value()'')"
    using assms(2,3,4) by (simp add: bwd_checks_tail_def require_def)
  have "bwd_checks (call\<lparr>NDEBUG := False\<rparr>)
          = Some (Assertion_Failed ''compensations.has_value()'')"
    using assms(4,5) tail' by (auto simp: bwd_checks_def require_def)
  then have stopped: "fully_fused_projection_packed_bwd_tensor (call\<lparr>NDEBUG := False\<rparr>)
           = ([], Inl (Assertion_Failed ''compensations.has_value()''))"
    by (simp add: fully_fused_projection_packed_bwd_tensor_def)
  show ?thesis using checks launch returned reads stopped by simp
qed

theorem null_compensations_reach_kernel_witness:
  "bwd_checks ex_ndebug = None
   \<and> fst (fully_fused_projection_packed_bwd_tensor ex_ndebug)
       = [\<lparr>launch_num_blocks = 1, launch_block_threads = 256\<rparr>]
   \<and> \<not> isl (snd (fully_fused_projection_packed_bwd_tensor ex_ndebug))
   \<and> bwd_null_reads ex_ndebug = [0, 1]
   \<and> fully_fused_projection_packed_bwd_tensor (ex_ndebug\<lparr>NDEBUG := False\<rparr>)
       = ([], Inl (Assertion_Failed ''compensations.has_value()''))"
proof -
  have h1: "NDEBUG ex_ndebug" by (simp add: ex_ndebug_def)
  have h2: "v_compensations_has_value ex_ndebug" by (simp add: ex_ndebug_def)
  have h3: "\<not> compensations_has_value ex_ndebug" by (simp add: ex_ndebug_def ex_bwd_sel)
  have h4: "\<forall>name. bwd_check_input ex_ndebug name" by (simp add: ex_ndebug_def ex_bwd_sel)
  have h5: "covars_sizes ex_ndebug \<noteq> None
            \<or> quats_sizes ex_ndebug \<noteq> None \<and> scales_sizes ex_ndebug \<noteq> None"
    by (simp add: ex_ndebug_def ex_bwd_sel)
  have h6: "nnz ex_ndebug \<noteq> 0" by (simp add: ex_ndebug_def ex_bwd_sel)
  have h7: "0 < N_THREADS ex_ndebug" by (simp add: ex_ndebug_def ex_bwd_sel)
  have h8: "nnz ex_ndebug + N_THREADS ex_ndebug \<le> 2 ^ 32" by (simp add: ex_ndebug_def ex_bwd_sel)
  have nb: "bwd_num_blocks ex_ndebug = 1"
    by (simp add: bwd_num_blocks_def u32_def ex_ndebug_def ex_bwd_sel)
  have sel: "nnz ex_ndebug = 2" "N_THREADS ex_ndebug = 256"
    by (simp_all add: ex_ndebug_def ex_bwd_sel)
  have up: "[0..<2] = [0, 1]" by (simp add: upt_rec)
  show ?thesis
    using null_compensations_reach_kernel [OF h1 h2 h3 h4 h5 h6 h7 h8]
    by (simp add: nb sel up)
qed

end
